theory Spec2Isabelle
  imports Main "HOL-Library.AList"
begin

section \<open>Synchronisation engine of teleye: data model\<close>

text \<open>
  The development follows the Python sources under \<^verbatim>\<open>src/app\<close>:
  \<^verbatim>\<open>services/elasticsearch.py\<close>, \<^verbatim>\<open>services/sync_service.py\<close>,
  \<^verbatim>\<open>services/listener_service.py\<close>, \<^verbatim>\<open>services/smart_sync_service.py\<close>,
  \<^verbatim>\<open>services/minio_service.py\<close>, \<^verbatim>\<open>tasks/sync_tasks.py\<close>,
  \<^verbatim>\<open>tasks/smart_sync_tasks.py\<close> and \<^verbatim>\<open>main.py\<close>.

  Python integers are \<open>int\<close>, strings and byte strings are \<open>string\<close>. A raised
  exception is a value \<open>Exception msg\<close> on the left of a sum; it stands for an instance
  of Python's class \<^verbatim>\<open>Exception\<close>, which is what every handler of these sources
  catches. A point in time (\<^verbatim>\<open>datetime\<close>) is a natural number.
\<close>

datatype exn = Exception string

type_synonym bytes = string
type_synonym datetime = nat

subsection \<open>Telegram objects\<close>

text \<open>
  The sources probe a sender entity with \<^verbatim>\<open>hasattr\<close>. An attribute is therefore
  modelled with two layers of option: \<open>None\<close> when the object has no such attribute,
  \<open>Some None\<close> when the attribute holds Python's \<^verbatim>\<open>None\<close>, \<open>Some (Some s)\<close> when
  it holds the string \<open>s\<close>.
\<close>

record entity =
  first_name :: "string option option"
  last_name :: "string option option"
  title :: "string option option"
  username :: "string option option"

record document =
  document_id :: int
  mime_type :: "string option"

text \<open>
  \<^verbatim>\<open>MessageMediaPhoto\<close> carries a photo (of which only the id is read) or
  \<^verbatim>\<open>None\<close>; \<^verbatim>\<open>MessageMediaDocument\<close> a document or \<^verbatim>\<open>None\<close>; every
  other media class is \<open>MessageMediaOther\<close>.
\<close>

datatype media =
    MessageMediaPhoto "int option"
  | MessageMediaDocument "document option"
  | MessageMediaOther

record tg_msg =
  tg_id :: int
  tg_sender :: "entity option"
  tg_sender_id :: "int option"
  tg_date :: "datetime option"
  tg_text :: "string option"
  tg_media :: "media option"

subsection \<open>The platform client\<close>

text \<open>
  Modelled from the spec: the platform client (Telethon's \<^verbatim>\<open>TelegramClient\<close>) is an
  external collaborator. Its contract (section 6 of the specification) is
  \<^verbatim>\<open>get_messages(channel_ref, limit, offset_id)\<close> returning an ordered, newest-first
  page of messages; with \<^verbatim>\<open>offset_id = 0\<close> the page starts at the newest message,
  otherwise only messages with an id below \<^verbatim>\<open>offset_id\<close> are returned.

  A client, seen from one channel, is the channel's history (newest first) together with
  the outcome of each request: \<open>tg_get_messages_exn\<close> says which requests raise,
  \<open>tg_download_media\<close> and \<open>tg_get_entity\<close> are the answers of the two other requests
  the sources make.
\<close>

record telegram =
  tg_history :: "tg_msg list"
  tg_get_messages_exn :: "int \<Rightarrow> int \<Rightarrow> exn option"
  tg_download_media :: "media \<Rightarrow> exn + bytes option"
  tg_get_entity :: "int \<Rightarrow> exn + entity"

definition get_messages :: "telegram \<Rightarrow> int \<Rightarrow> int \<Rightarrow> exn + tg_msg list" where
  "get_messages client limit offset_id =
     (case tg_get_messages_exn client limit offset_id of
        Some e \<Rightarrow> Inl e
      | None \<Rightarrow>
          Inr (take (nat limit)
                 (filter (\<lambda>m. offset_id = 0 \<or> tg_id m < offset_id) (tg_history client))))"

text \<open>
  A history as the platform keeps it: message ids are positive and strictly decreasing
  from the newest message to the oldest.
\<close>

fun well_formed_history :: "tg_msg list \<Rightarrow> bool" where
  "well_formed_history [] = True"
| "well_formed_history [m] = (0 < tg_id m)"
| "well_formed_history (m # m' # ms) = (tg_id m' < tg_id m \<and> well_formed_history (m' # ms))"

subsection \<open>Object storage (\<^verbatim>\<open>services/minio_service.py\<close>)\<close>

text \<open>
  \<open>put_object_exn\<close> is the outcome of the storage client's \<^verbatim>\<open>put_object\<close> for an
  object name. \<^verbatim>\<open>upload_image\<close> re-raises whatever \<^verbatim>\<open>put_object\<close> raises and
  otherwise returns the public URL.
\<close>

record minio =
  endpoint :: string
  secure :: bool
  put_object_exn :: "string \<Rightarrow> exn option"

definition bucket_name :: string where
  "bucket_name = ''telegram-images''"

definition upload_image :: "minio \<Rightarrow> bytes \<Rightarrow> string \<Rightarrow> string \<Rightarrow> exn + string" where
  "upload_image manager image_data object_name content_type =
     (case put_object_exn manager object_name of
        Some e \<Rightarrow> Inl e
      | None \<Rightarrow>
          Inr ((if secure manager then ''https'' else ''http'') @ ''://'' @ endpoint manager
               @ ''/'' @ bucket_name @ ''/'' @ object_name))"

subsection \<open>Strings\<close>

text \<open>Python's \<^verbatim>\<open>str\<close> of an integer, as the f-strings of the sources use it.\<close>

definition digit_char :: "nat \<Rightarrow> char" where
  "digit_char d = ''0123456789'' ! d"

fun str_nat :: "nat \<Rightarrow> string" where
  "str_nat n = (if n < 10 then [digit_char n] else str_nat (n div 10) @ [digit_char (n mod 10)])"

declare str_nat.simps [simp del]

definition str_int :: "int \<Rightarrow> string" where
  "str_int i = (if i < 0 then CHR ''-'' # str_nat (nat (- i)) else str_nat (nat i))"

text \<open>\<^verbatim>\<open>sub in s\<close> and \<^verbatim>\<open>s.startswith(p)\<close>.\<close>

definition startswith :: "string \<Rightarrow> string \<Rightarrow> bool" where
  "startswith s p = (take (length p) s = p)"

fun contains :: "string \<Rightarrow> string \<Rightarrow> bool" where
  "contains [] sub = (sub = [])"
| "contains (c # cs) sub = (startswith (c # cs) sub \<or> contains cs sub)"

text \<open>\<^verbatim>\<open>value or ""\<close> for an optional string.\<close>

definition or_empty :: "string option \<Rightarrow> string" where
  "or_empty v = (case v of None \<Rightarrow> [] | Some s \<Rightarrow> s)"

subsection \<open>Canonical records (\<^verbatim>\<open>core/models.py\<close>)\<close>

text \<open>\<^verbatim>\<open>MessageInfo\<close>; its field \<^verbatim>\<open>text\<close> is \<open>msg_text\<close> here.\<close>

record message_info =
  channel_id :: int
  message_id :: int
  sender_name :: string
  time :: "datetime option"
  msg_text :: string
  images :: "string list"
  image_urls :: "string list"
  images_data :: "bytes list"
  indexed_at :: datetime

text \<open>
  The document stored in the index: \<^verbatim>\<open>message.model_dump()\<close> without the key
  \<^verbatim>\<open>images_data\<close>.
\<close>

record message_doc =
  doc_channel_id :: int
  doc_message_id :: int
  doc_sender_name :: string
  doc_time :: "datetime option"
  doc_text :: string
  doc_images :: "string list"
  doc_image_urls :: "string list"
  doc_indexed_at :: datetime

definition model_dump :: "message_info \<Rightarrow> message_doc" where
  "model_dump message =
     \<lparr>doc_channel_id = channel_id message, doc_message_id = message_id message,
      doc_sender_name = sender_name message, doc_time = time message,
      doc_text = msg_text message, doc_images = images message,
      doc_image_urls = image_urls message, doc_indexed_at = indexed_at message\<rparr>"

text \<open>One bulk action: \<^verbatim>\<open>{"_index": ..., "_id": ..., "_source": ...}\<close>.\<close>

record bulk_action =
  action_index :: string
  action_id :: string
  action_source :: message_doc

definition make_action :: "message_info \<Rightarrow> bulk_action" where
  "make_action message =
     \<lparr>action_index = ''messages'',
      action_id = str_int (channel_id message) @ ''_'' @ str_int (message_id message),
      action_source = model_dump message\<rparr>"

subsection \<open>The search index\<close>

text \<open>
  Modelled from the spec: the index store is an external collaborator
  (\<^verbatim>\<open>AsyncElasticsearch\<close> and \<^verbatim>\<open>elasticsearch.helpers.async_bulk\<close>). Its contract
  (section 6 of the specification) is an idempotent bulk upsert keyed by document id
  and a search with a sort. The index \<^verbatim>\<open>messages\<close> is an association list from
  document id to document; \<open>es_search_exn\<close> and \<open>es_bulk_exn\<close> say whether a search
  request and a bulk request raise. A bulk request that raises is taken to write
  nothing; one that returns has written every action, in order, and reports all of them
  as successes (\<^verbatim>\<open>async_bulk\<close> is called with its default \<^verbatim>\<open>raise_on_error\<close>, so
  a rejected action raises).
\<close>

record elasticsearch =
  es_messages :: "(string \<times> message_doc) list"
  es_search_exn :: "exn option"
  es_bulk_exn :: "exn option"

definition upsert :: "(string \<times> message_doc) list \<Rightarrow> bulk_action \<Rightarrow> (string \<times> message_doc) list" where
  "upsert index a = AList.update (action_id a) (action_source a) index"

definition async_bulk ::
  "elasticsearch \<Rightarrow> bulk_action list \<Rightarrow> (exn + nat \<times> nat) \<times> elasticsearch" where
  "async_bulk es_client actions =
     (case es_bulk_exn es_client of
        Some e \<Rightarrow> (Inl e, es_client)
      | None \<Rightarrow>
          (Inr (length actions, 0),
           es_client\<lparr>es_messages := foldl upsert (es_messages es_client) actions\<rparr>))"

text \<open>
  The search of \<^verbatim>\<open>get_last_message_id_elasticsearch\<close>: the documents of a channel,
  sorted by message id, highest first, cut to \<open>n\<close> hits.
\<close>

fun insort_desc :: "message_doc \<Rightarrow> message_doc list \<Rightarrow> message_doc list" where
  "insort_desc d [] = [d]"
| "insort_desc d (x # xs) =
     (if doc_message_id x \<le> doc_message_id d then d # x # xs else x # insort_desc d xs)"

definition search_channel_desc ::
  "elasticsearch \<Rightarrow> int \<Rightarrow> nat \<Rightarrow> exn + message_doc list" where
  "search_channel_desc es_client ch n =
     (case es_search_exn es_client of
        Some e \<Rightarrow> Inl e
      | None \<Rightarrow>
          Inr (take n
                 (foldr insort_desc
                    (filter (\<lambda>d. doc_channel_id d = ch) (map snd (es_messages es_client))) [])))"

section \<open>Bulk insert (\<^verbatim>\<open>services/elasticsearch.py\<close>)\<close>

text \<open>
  \<^verbatim>\<open>execute_elasticsearch_bulk_insert\<close>: the bulk request inside a handler for every
  \<^verbatim>\<open>Exception\<close>. The result is a sum so that an exception leaving the function would
  be a value \<open>Inl\<close>.
\<close>

definition execute_elasticsearch_bulk_insert ::
  "elasticsearch \<Rightarrow> bulk_action list \<Rightarrow> (exn + nat \<times> nat) \<times> elasticsearch" where
  "execute_elasticsearch_bulk_insert es_client actions =
     (case async_bulk es_client actions of
        (Inr (success, failed), es_client') \<Rightarrow> (Inr (success, failed), es_client')
      | (Inl e, es_client') \<Rightarrow> (Inr (0, length actions), es_client'))"

section \<open>Message normalisation\<close>

text \<open>
  The chain of \<^verbatim>\<open>hasattr\<close> tests that turns a sender entity into a display name. The
  sources repeat it in \<^verbatim>\<open>process_message\<close>, \<^verbatim>\<open>process_single_message\<close> and twice
  in \<^verbatim>\<open>process_single_message_enhanced\<close>.
\<close>

definition sender_display_name :: "entity \<Rightarrow> string" where
  "sender_display_name s =
     (case first_name s of
        Some fn \<Rightarrow>
          or_empty fn @
          (case last_name s of
             Some (Some ln) \<Rightarrow> (if ln \<noteq> [] then '' '' @ ln else [])
           | _ \<Rightarrow> [])
      | None \<Rightarrow>
          (case title s of
             Some t \<Rightarrow> or_empty t
           | None \<Rightarrow> (case username s of Some u \<Rightarrow> or_empty u | None \<Rightarrow> [])))"

text \<open>
  File extension and content type of downloaded media. Reading
  \<^verbatim>\<open>media.document.mime_type\<close> of a document that is \<^verbatim>\<open>None\<close> raises.
\<close>

definition extension_and_content_type :: "media \<Rightarrow> exn + string \<times> string" where
  "extension_and_content_type m =
     (case m of
        MessageMediaDocument None \<Rightarrow>
          Inl (Exception ''AttributeError: NoneType object has no attribute mime_type'')
      | MessageMediaDocument (Some d) \<Rightarrow>
          (case mime_type d of
             None \<Rightarrow> Inr (''jpg'', ''image/jpeg'')
           | Some mt \<Rightarrow>
               if mt = [] then Inr (''jpg'', ''image/jpeg'')
               else if contains mt ''png'' then Inr (''png'', ''image/png'')
               else if contains mt ''gif'' then Inr (''gif'', ''image/gif'')
               else if contains mt ''webp'' then Inr (''webp'', ''image/webp'')
               else Inr (''jpg'', ''image/jpeg''))
      | _ \<Rightarrow> Inr (''jpg'', ''image/jpeg''))"

text \<open>
  The body of the \<^verbatim>\<open>try\<close> block that downloads media and uploads it to object
  storage; the result is \<open>(image_urls, images, images_data)\<close>.
\<close>

definition download_and_store ::
  "telegram \<Rightarrow> minio \<Rightarrow> int \<Rightarrow> int \<Rightarrow> media \<Rightarrow> exn + string list \<times> string list \<times> bytes list" where
  "download_and_store client manager ch mid m =
     (case tg_download_media client m of
        Inl e \<Rightarrow> Inl e
      | Inr None \<Rightarrow> Inr ([], [], [])
      | Inr (Some media_bytes) \<Rightarrow>
          if media_bytes = [] then Inr ([], [], [])
          else
            (case extension_and_content_type m of
               Inl e \<Rightarrow> Inl e
             | Inr (file_extension, content_type) \<Rightarrow>
                 (case upload_image manager media_bytes
                         (''channel_'' @ str_int ch @ ''/message_'' @ str_int mid @ ''.''
                          @ file_extension) content_type of
                    Inl e \<Rightarrow> Inl e
                  | Inr minio_url \<Rightarrow>
                      Inr ([minio_url],
                           [''channel_'' @ str_int ch @ ''/message_'' @ str_int mid @ ''.''
                            @ file_extension],
                           [media_bytes]))))"

text \<open>The marker recorded for media that is present but not downloaded.\<close>

definition media_marker :: "media \<Rightarrow> string list" where
  "media_marker m =
     (case m of
        MessageMediaPhoto (Some photo_id) \<Rightarrow> [''telegram_photo_'' @ str_int photo_id]
      | MessageMediaPhoto None \<Rightarrow> []
      | MessageMediaDocument (Some d) \<Rightarrow>
          (case mime_type d of
             Some mt \<Rightarrow>
               if mt \<noteq> [] \<and> startswith mt ''image/''
               then [''telegram_document_'' @ str_int (document_id d)] else []
           | None \<Rightarrow> [])
      | MessageMediaDocument None \<Rightarrow> []
      | MessageMediaOther \<Rightarrow> [])"

definition is_photo_or_document :: "media \<Rightarrow> bool" where
  "is_photo_or_document m = (case m of MessageMediaOther \<Rightarrow> False | _ \<Rightarrow> True)"

subsection \<open>\<^verbatim>\<open>process_message\<close> (\<^verbatim>\<open>services/sync_service.py\<close>)\<close>

text \<open>
  The first argument stands for \<^verbatim>\<open>datetime.now()\<close>: \<open>now i\<close> is the reading of the
  clock when the record of message \<open>i\<close> is built. The whole body is inside
  \<^verbatim>\<open>try ... except Exception: return None\<close>, so the exception that the inner handler
  re-raises ends as the result \<^verbatim>\<open>None\<close>. The result type keeps the left summand for
  an exception that would leave the function.
\<close>

definition process_message ::
  "(int \<Rightarrow> datetime) \<Rightarrow> tg_msg \<Rightarrow> int \<Rightarrow> telegram \<Rightarrow> bool \<Rightarrow> minio option
     \<Rightarrow> exn + message_info option" where
  "process_message now tg_msg ch client sync_images minio_manager =
     (case
        (case (tg_media tg_msg, minio_manager) of
           (Some m, Some manager) \<Rightarrow>
             if sync_images then
               (if is_photo_or_document m
                then download_and_store client manager ch (tg_id tg_msg) m
                else Inr ([], [], []))
             else Inr (if is_photo_or_document m then media_marker m else [], [], [])
         | (Some m, None) \<Rightarrow>
             if \<not> sync_images
             then Inr (if is_photo_or_document m then media_marker m else [], [], [])
             else Inr ([], [], [])
         | (None, _) \<Rightarrow> Inr ([], [], []))
      of
        Inl e \<Rightarrow> Inr None
      | Inr (urls, names, data) \<Rightarrow>
          Inr (Some
            \<lparr>channel_id = ch, message_id = tg_id tg_msg,
             sender_name =
               (case tg_sender tg_msg of Some s \<Rightarrow> sender_display_name s | None \<Rightarrow> []),
             time = tg_date tg_msg, msg_text = or_empty (tg_text tg_msg),
             images = names, image_urls = urls,
             images_data = (if sync_images then data else []),
             indexed_at = now (tg_id tg_msg)\<rparr>))"

subsection \<open>\<^verbatim>\<open>process_single_message_enhanced\<close> (\<^verbatim>\<open>services/listener_service.py\<close>)\<close>

text \<open>
  The sender name with the lookup by id: \<^verbatim>\<open>message.sender_id\<close> is tested for
  truth, so an id of 0 counts as absent.
\<close>

definition enhanced_sender_name :: "telegram \<Rightarrow> tg_msg \<Rightarrow> string" where
  "enhanced_sender_name client message =
     (case tg_sender message of
        Some s \<Rightarrow> sender_display_name s
      | None \<Rightarrow>
          (case tg_sender_id message of
             None \<Rightarrow> ''Unknown''
           | Some sid \<Rightarrow>
               if sid = 0 then ''Unknown''
               else
                 (case tg_get_entity client sid of
                    Inr sender \<Rightarrow> sender_display_name sender
                  | Inl entity_error \<Rightarrow> ''User_'' @ str_int sid)))"

text \<open>
  Here the handler around the download only logs, so a failed download leaves the media
  lists empty; media that is present but not downloaded (also for want of a storage
  manager) gets its marker.
\<close>

definition process_single_message_enhanced ::
  "(int \<Rightarrow> datetime) \<Rightarrow> tg_msg \<Rightarrow> int \<Rightarrow> telegram \<Rightarrow> bool \<Rightarrow> minio option
     \<Rightarrow> exn + message_info option" where
  "process_single_message_enhanced now message ch client download_images minio_manager =
     (case
        (case (tg_media message, minio_manager) of
           (Some m, Some manager) \<Rightarrow>
             if download_images then
               (if is_photo_or_document m then
                  (case download_and_store client manager ch (tg_id message) m of
                     Inl e \<Rightarrow> ([], [])
                   | Inr (urls, names, data) \<Rightarrow> (urls, names))
                else ([], []))
             else (if is_photo_or_document m then media_marker m else [], [])
         | (Some m, None) \<Rightarrow> (if is_photo_or_document m then media_marker m else [], [])
         | (None, _) \<Rightarrow> ([], []))
      of
        (urls, names) \<Rightarrow>
          Inr (Some
            \<lparr>channel_id = ch, message_id = tg_id message,
             sender_name = enhanced_sender_name client message,
             time = tg_date message, msg_text = or_empty (tg_text message),
             images = names, image_urls = urls, images_data = [],
             indexed_at = now (tg_id message)\<rparr>))"

section \<open>Backfill (\<^verbatim>\<open>services/smart_sync_service.py\<close>)\<close>

text \<open>
  The requests a run makes are logged, in order, in the field \<open>calls\<close> of the loop
  state: it is not a variable of the sources but the trace of their effects. The other
  fields are the local variables \<^verbatim>\<open>processed_messages\<close>, \<^verbatim>\<open>images_downloaded\<close>
  and \<^verbatim>\<open>images_failed\<close>. The pauses (\<^verbatim>\<open>asyncio.sleep\<close>) change no value and are
  left out.
\<close>

datatype event =
    GetMessages int int
  | ProcessMessage int
  | UpdateProgress int int int

record loop_state =
  processed_messages :: "message_info list"
  n_images_downloaded :: nat
  n_images_failed :: nat
  calls :: "event list"

definition initial_state :: loop_state where
  "initial_state =
     \<lparr>processed_messages = [], n_images_downloaded = 0, n_images_failed = 0, calls = []\<rparr>"

text \<open>
  The body of the \<^verbatim>\<open>for\<close> loop below the cutoff test: \<^verbatim>\<open>process_message\<close> inside
  \<^verbatim>\<open>try ... except Exception\<close>.
\<close>

definition process_one ::
  "(int \<Rightarrow> datetime) \<Rightarrow> int \<Rightarrow> telegram \<Rightarrow> bool \<Rightarrow> minio option \<Rightarrow> tg_msg \<Rightarrow> loop_state
     \<Rightarrow> loop_state" where
  "process_one now ch client sync_images minio_manager tg_msg st =
     (case process_message now tg_msg ch client sync_images minio_manager of
        Inr (Some message_info) \<Rightarrow>
          st\<lparr>processed_messages := processed_messages st @ [message_info],
             n_images_downloaded :=
               (if sync_images \<and> image_urls message_info \<noteq> []
                then n_images_downloaded st + length (image_urls message_info)
                else n_images_downloaded st),
             calls := calls st @ [ProcessMessage (tg_id tg_msg)]\<rparr>
      | Inr None \<Rightarrow> st\<lparr>calls := calls st @ [ProcessMessage (tg_id tg_msg)]\<rparr>
      | Inl e \<Rightarrow>
          st\<lparr>n_images_failed :=
               (if sync_images then n_images_failed st + 1 else n_images_failed st),
             calls := calls st @ [ProcessMessage (tg_id tg_msg)]\<rparr>)"

text \<open>
  The \<^verbatim>\<open>for\<close> loop over one page; the first component of the result is
  \<^verbatim>\<open>found_cutoff\<close>.
\<close>

fun process_page ::
  "(int \<Rightarrow> datetime) \<Rightarrow> int \<Rightarrow> telegram \<Rightarrow> bool \<Rightarrow> minio option \<Rightarrow> int \<Rightarrow> tg_msg list
     \<Rightarrow> loop_state \<Rightarrow> bool \<times> loop_state" where
  "process_page now ch client sync_images minio_manager after_message_id [] st = (False, st)"
| "process_page now ch client sync_images minio_manager after_message_id (tg_msg # rest) st =
     (if tg_id tg_msg \<le> after_message_id then (True, st)
      else process_page now ch client sync_images minio_manager after_message_id rest
             (process_one now ch client sync_images minio_manager tg_msg st))"

text \<open>
  The \<^verbatim>\<open>while not found_cutoff\<close> loop. Nothing bounds the number of its rounds, so
  the function is partial: \<open>None\<close> is a run that never leaves the loop. An exception
  raised by \<^verbatim>\<open>get_messages\<close> leaves the function (\<open>Inl\<close>).
\<close>

partial_function (option) fetch_loop ::
  "(int \<Rightarrow> datetime) \<Rightarrow> int \<Rightarrow> telegram \<Rightarrow> bool \<Rightarrow> minio option \<Rightarrow> int \<Rightarrow> int
     \<Rightarrow> loop_state \<Rightarrow> (exn + loop_state) option" where
  "fetch_loop now ch client sync_images minio_manager after_message_id offset_id st =
     (case get_messages client 100 offset_id of
        Inl e \<Rightarrow> Some (Inl e)
      | Inr telegram_messages \<Rightarrow>
          if telegram_messages = []
          then Some (Inr (st\<lparr>calls := calls st @ [GetMessages 100 offset_id]\<rparr>))
          else
            (case process_page now ch client sync_images minio_manager after_message_id
                    telegram_messages (st\<lparr>calls := calls st @ [GetMessages 100 offset_id]\<rparr>) of
               (found_cutoff, st') \<Rightarrow>
                 if found_cutoff then Some (Inr st')
                 else fetch_loop now ch client sync_images minio_manager after_message_id
                        (tg_id (last telegram_messages)) st'))"

declare fetch_loop.simps [code]

record sync_result =
  messages_processed :: nat
  images_downloaded :: nat
  images_failed :: nat
  elasticsearch_success :: nat
  elasticsearch_failed :: nat

text \<open>
  The bulk insert that ends \<^verbatim>\<open>sync_missing_messages\<close> and
  \<^verbatim>\<open>sync_channel_messages_task\<close>: skipped when no message was processed.
\<close>

definition bulk_insert_processed ::
  "elasticsearch \<Rightarrow> message_info list \<Rightarrow> (exn + nat \<times> nat) \<times> elasticsearch" where
  "bulk_insert_processed es_client messages =
     (if messages = [] then (Inr (0, 0), es_client)
      else execute_elasticsearch_bulk_insert es_client (map make_action messages))"

definition sync_missing_messages ::
  "(int \<Rightarrow> datetime) \<Rightarrow> telegram \<Rightarrow> elasticsearch \<Rightarrow> int \<Rightarrow> int \<Rightarrow> bool \<Rightarrow> minio option
     \<Rightarrow> ((exn + sync_result) \<times> elasticsearch \<times> event list) option" where
  "sync_missing_messages now client es_client ch after_message_id sync_images minio_manager =
     (case fetch_loop now ch client sync_images minio_manager after_message_id 0 initial_state of
        None \<Rightarrow> None
      | Some (Inl e) \<Rightarrow> Some (Inl e, es_client, [])
      | Some (Inr st) \<Rightarrow>
          (case bulk_insert_processed es_client (processed_messages st) of
             (Inl e, es_client') \<Rightarrow> Some (Inl e, es_client', calls st)
           | (Inr (success, failed), es_client') \<Rightarrow>
               Some (Inr \<lparr>messages_processed = length (processed_messages st),
                          images_downloaded = n_images_downloaded st,
                          images_failed = n_images_failed st,
                          elasticsearch_success = success,
                          elasticsearch_failed = failed\<rparr>,
                     es_client', calls st)))"

section \<open>Reconciliation (\<^verbatim>\<open>smart_sync_channel\<close>)\<close>

definition get_last_message_id_telegram :: "telegram \<Rightarrow> int option" where
  "get_last_message_id_telegram client =
     (case get_messages client 1 0 of
        Inl e \<Rightarrow> None
      | Inr [] \<Rightarrow> None
      | Inr (m # _) \<Rightarrow> Some (tg_id m))"

definition get_last_message_id_elasticsearch :: "elasticsearch \<Rightarrow> int \<Rightarrow> int option" where
  "get_last_message_id_elasticsearch es_client ch =
     (case search_channel_desc es_client ch 1 of
        Inl e \<Rightarrow> None
      | Inr [] \<Rightarrow> None
      | Inr (d # _) \<Rightarrow> Some (doc_message_id d))"

text \<open>
  The dictionary that \<^verbatim>\<open>smart_sync_channel\<close> returns. The count keys are present
  only in some branches, hence the options.
\<close>

record outcome =
  out_channel_id :: int
  out_action :: string
  out_reason :: string
  out_success :: bool
  out_messages_processed :: "nat option"
  out_images_downloaded :: "nat option"
  out_images_failed :: "nat option"
  out_elasticsearch_success :: "nat option"
  out_elasticsearch_failed :: "nat option"

definition plain_outcome :: "int \<Rightarrow> string \<Rightarrow> string \<Rightarrow> bool \<Rightarrow> nat option \<Rightarrow> outcome" where
  "plain_outcome ch act why ok processed =
     \<lparr>out_channel_id = ch, out_action = act, out_reason = why, out_success = ok,
      out_messages_processed = processed, out_images_downloaded = None,
      out_images_failed = None, out_elasticsearch_success = None,
      out_elasticsearch_failed = None\<rparr>"

definition sync_outcome :: "int \<Rightarrow> string \<Rightarrow> string \<Rightarrow> sync_result \<Rightarrow> outcome" where
  "sync_outcome ch act why r =
     \<lparr>out_channel_id = ch, out_action = act, out_reason = why, out_success = True,
      out_messages_processed = Some (messages_processed r),
      out_images_downloaded = Some (images_downloaded r),
      out_images_failed = Some (images_failed r),
      out_elasticsearch_success = Some (elasticsearch_success r),
      out_elasticsearch_failed = Some (elasticsearch_failed r)\<rparr>"

definition str_exn :: "exn \<Rightarrow> string" where
  "str_exn e = (case e of Exception msg \<Rightarrow> msg)"

text \<open>
  The result is \<open>None\<close> when the backfill never returns. Inside, the first component
  is the returned dictionary (or \<open>None\<close> for Python's \<^verbatim>\<open>None\<close>, returned when no
  \<^verbatim>\<open>if\<close> applies), the second the index after the call, the third the trace of the
  backfill. The handler around the whole body turns an exception of the backfill into
  the outcome \<^verbatim>\<open>error\<close>.
\<close>

definition smart_sync_channel ::
  "(int \<Rightarrow> datetime) \<Rightarrow> int \<Rightarrow> telegram \<Rightarrow> elasticsearch \<Rightarrow> bool \<Rightarrow> minio option
     \<Rightarrow> (outcome option \<times> elasticsearch \<times> event list) option" where
  "smart_sync_channel now ch client es_client sync_images minio_manager =
     (case get_last_message_id_telegram client of
        None \<Rightarrow>
          Some (Some (plain_outcome ch ''skip'' ''Channel not accessible on Telegram'' False None),
                es_client, [])
      | Some tg_last_id \<Rightarrow>
          (case get_last_message_id_elasticsearch es_client ch of
             None \<Rightarrow>
               (case sync_missing_messages now client es_client ch 0 sync_images minio_manager of
                  None \<Rightarrow> None
                | Some (Inl e, es_client', log) \<Rightarrow>
                    Some (Some (plain_outcome ch ''error'' (str_exn e) False None), es_client', log)
                | Some (Inr r, es_client', log) \<Rightarrow>
                    Some (Some (sync_outcome ch ''full_sync'' ''No data in Elasticsearch'' r),
                          es_client', log))
           | Some es_last_id \<Rightarrow>
               if tg_last_id = es_last_id then
                 Some (Some (plain_outcome ch ''skip'' ''Last message IDs are equal'' True (Some 0)),
                       es_client, [])
               else if tg_last_id > es_last_id then
                 (case sync_missing_messages now client es_client ch es_last_id sync_images
                         minio_manager of
                    None \<Rightarrow> None
                  | Some (Inl e, es_client', log) \<Rightarrow>
                      Some (Some (plain_outcome ch ''error'' (str_exn e) False None), es_client',
                            log)
                  | Some (Inr r, es_client', log) \<Rightarrow>
                      Some (Some (sync_outcome ch ''incremental_sync''
                                    (''Synced messages from '' @ str_int (es_last_id + 1) @ '' to ''
                                     @ str_int tg_last_id) r),
                            es_client', log))
               else if es_last_id > tg_last_id then
                 Some (Some (plain_outcome ch ''skip''
                               ''Elasticsearch has higher message ID than Telegram'' True (Some 0)),
                       es_client, [])
               else Some (None, es_client, [])))"

section \<open>Progress reports (\<^verbatim>\<open>update_progress\<close>)\<close>

subsection \<open>Python's floating-point arithmetic\<close>

text \<open>
  \<^verbatim>\<open>update_progress\<close> computes \<^verbatim>\<open>int((current / total) * 100)\<close>: a true division of
  two integers, a multiplication by 100 and a truncation, the first two in IEEE 754
  binary64 with rounding to nearest, ties to even. A float is written out here as a pair
  of integers: \<open>Float m e\<close> is the number \<open>m * 2 ^ e\<close>, and a result of an operation
  has a significand of 53 bits. The exponent is not bounded, so the model is that of
  binary64 as long as a result is in its normal range (of magnitude between
  \<open>2 ^ -1022\<close> and \<open>2 ^ 1024\<close>), which holds for every quotient of two counters.
\<close>

datatype float = Float int int

text \<open>\<^verbatim>\<open>int.bit_length()\<close> of a non-negative integer.\<close>

function bit_length :: "int \<Rightarrow> nat" where
  "bit_length n = (if n \<le> 0 then 0 else Suc (bit_length (n div 2)))"
  by pat_completeness auto
termination
  by (relation "measure nat") auto

declare bit_length.simps [simp del]

text \<open>The integer nearest to \<open>n / d\<close>, for \<open>d > 0\<close>; a tie goes to the even one.\<close>

definition round_half_even :: "int \<Rightarrow> int \<Rightarrow> int" where
  "round_half_even n d =
     (if 2 * (n mod d) < d then n div d
      else if d < 2 * (n mod d) then n div d + 1
      else if even (n div d) then n div d
      else n div d + 1)"

text \<open>
  The float nearest to \<open>n / d\<close> for positive \<open>n\<close> and \<open>d\<close>. With
  \<open>k = bit_length n - bit_length d\<close> the quotient lies strictly between \<open>2 ^ (k - 1)\<close>
  and \<open>2 ^ (k + 1)\<close>; \<open>binary_exponent n d\<close> is the \<open>e\<close> with
  \<open>2 ^ e \<le> n / d < 2 ^ (e + 1)\<close>, and the significand is \<open>n / d\<close> scaled by
  \<open>2 ^ (52 - e)\<close> and rounded.
\<close>

definition binary_exponent :: "int \<Rightarrow> int \<Rightarrow> int" where
  "binary_exponent n d =
     (if bit_length d \<le> bit_length n
      then (if d * 2 ^ (bit_length n - bit_length d) \<le> n
            then int (bit_length n - bit_length d)
            else int (bit_length n - bit_length d) - 1)
      else (if d \<le> n * 2 ^ (bit_length d - bit_length n)
            then - int (bit_length d - bit_length n)
            else - int (bit_length d - bit_length n) - 1))"

definition round_ratio :: "int \<Rightarrow> int \<Rightarrow> float" where
  "round_ratio n d =
     (if binary_exponent n d \<le> 52
      then Float (round_half_even (n * 2 ^ nat (52 - binary_exponent n d)) d)
             (binary_exponent n d - 52)
      else Float (round_half_even n (d * 2 ^ nat (binary_exponent n d - 52)))
             (binary_exponent n d - 52))"

definition float_neg :: "float \<Rightarrow> float" where
  "float_neg x = (case x of Float m e \<Rightarrow> Float (- m) e)"

definition truediv :: "int \<Rightarrow> int \<Rightarrow> float" where
  "truediv a b =
     (if a = 0 then Float 0 0
      else if (a < 0) = (b < 0) then round_ratio \<bar>a\<bar> \<bar>b\<bar>
      else float_neg (round_ratio \<bar>a\<bar> \<bar>b\<bar>))"

definition float_mul :: "float \<Rightarrow> float \<Rightarrow> float" where
  "float_mul x y =
     (case (x, y) of
        (Float m1 e1, Float m2 e2) \<Rightarrow>
          if m1 * m2 = 0 then Float 0 0
          else if 0 < m1 * m2 then
            (if 0 \<le> e1 + e2
             then round_ratio (\<bar>m1 * m2\<bar> * 2 ^ nat (e1 + e2)) 1
             else round_ratio \<bar>m1 * m2\<bar> (2 ^ nat (- (e1 + e2))))
          else
            float_neg
              (if 0 \<le> e1 + e2
               then round_ratio (\<bar>m1 * m2\<bar> * 2 ^ nat (e1 + e2)) 1
               else round_ratio \<bar>m1 * m2\<bar> (2 ^ nat (- (e1 + e2)))))"

definition int_of_float :: "float \<Rightarrow> int" where
  "int_of_float x =
     (case x of
        Float m e \<Rightarrow>
          if 0 \<le> e then m * 2 ^ nat e
          else if 0 \<le> m then m div 2 ^ nat (- e)
          else - ((- m) div 2 ^ nat (- e)))"

subsection \<open>The report\<close>

text \<open>
  \<^verbatim>\<open>int((current / total) * 100) if total > 0 else 0\<close>; the integer 100 is the float
  \<open>Float 100 0\<close>.
\<close>

definition percentage :: "int \<Rightarrow> int \<Rightarrow> int" where
  "percentage current total_items =
     (if 0 < total_items then int_of_float (float_mul (truediv current total_items) (Float 100 0)) else 0)"

text \<open>
  \<^verbatim>\<open>SyncTask.update_progress\<close> and \<^verbatim>\<open>SmartSyncTask.update_progress\<close> (the same
  body): the report, as an event of the trace. The parameter \<^verbatim>\<open>total\<close> is
  \<open>total_items\<close> here; the status text is not part of the event.
\<close>

definition update_progress :: "int \<Rightarrow> int \<Rightarrow> event" where
  "update_progress current total_items = UpdateProgress current total_items (percentage current total_items)"

text \<open>What the claim states as the percentage: the floor of the exact quotient.\<close>

definition exact_percentage :: "int \<Rightarrow> int \<Rightarrow> int" where
  "exact_percentage current total_items = (if 0 < total_items then (current * 100) div total_items else 0)"

section \<open>Explicit-window sync (\<^verbatim>\<open>tasks/sync_tasks.py\<close>)\<close>

text \<open>
  The body of the \<^verbatim>\<open>for\<close> loop of \<^verbatim>\<open>sync_channel_messages_task\<close> below its size
  test: \<^verbatim>\<open>process_message\<close> and the progress report inside
  \<^verbatim>\<open>try ... except Exception\<close>. The report follows every call that returns, also one
  that returns \<^verbatim>\<open>None\<close>.
\<close>

definition process_and_report ::
  "(int \<Rightarrow> datetime) \<Rightarrow> int \<Rightarrow> telegram \<Rightarrow> bool \<Rightarrow> minio option \<Rightarrow> int \<Rightarrow> tg_msg
     \<Rightarrow> loop_state \<Rightarrow> loop_state" where
  "process_and_report now ch client sync_images minio_manager size_wanted tg_msg st =
     (case process_message now tg_msg ch client sync_images minio_manager of
        Inr (Some message_info) \<Rightarrow>
          st\<lparr>processed_messages := processed_messages st @ [message_info],
             n_images_downloaded :=
               (if sync_images \<and> image_urls message_info \<noteq> []
                then n_images_downloaded st + length (image_urls message_info)
                else n_images_downloaded st),
             calls := calls st @
               [ProcessMessage (tg_id tg_msg),
                update_progress (int (length (processed_messages st)) + 1) size_wanted]\<rparr>
      | Inr None \<Rightarrow>
          st\<lparr>calls := calls st @
               [ProcessMessage (tg_id tg_msg),
                update_progress (int (length (processed_messages st))) size_wanted]\<rparr>
      | Inl e \<Rightarrow>
          st\<lparr>n_images_failed :=
               (if sync_images then n_images_failed st + 1 else n_images_failed st),
             calls := calls st @ [ProcessMessage (tg_id tg_msg)]\<rparr>)"

text \<open>The \<^verbatim>\<open>for\<close> loop over one page, left as soon as \<^verbatim>\<open>size\<close> records exist.\<close>

fun process_batch ::
  "(int \<Rightarrow> datetime) \<Rightarrow> int \<Rightarrow> telegram \<Rightarrow> bool \<Rightarrow> minio option \<Rightarrow> int \<Rightarrow> tg_msg list
     \<Rightarrow> loop_state \<Rightarrow> loop_state" where
  "process_batch now ch client sync_images minio_manager size_wanted [] st = st"
| "process_batch now ch client sync_images minio_manager size_wanted (tg_msg # rest) st =
     (if size_wanted \<le> int (length (processed_messages st)) then st
      else process_batch now ch client sync_images minio_manager size_wanted rest
             (process_and_report now ch client sync_images minio_manager size_wanted tg_msg st))"

text \<open>
  The \<^verbatim>\<open>while len(processed_messages) < size\<close> loop; \<open>None\<close> is a run that never
  leaves it. The number of messages to fetch is computed before the page is processed.
\<close>

partial_function (option) sync_loop ::
  "(int \<Rightarrow> datetime) \<Rightarrow> int \<Rightarrow> telegram \<Rightarrow> bool \<Rightarrow> minio option \<Rightarrow> int \<Rightarrow> int \<Rightarrow> int
     \<Rightarrow> loop_state \<Rightarrow> (exn + loop_state) option" where
  "sync_loop now ch client sync_images minio_manager size_wanted batch_size current_offset st =
     (if int (length (processed_messages st)) < size_wanted then
        (case get_messages client
                (min batch_size (size_wanted - int (length (processed_messages st))))
                current_offset of
           Inl e \<Rightarrow> Some (Inl e)
         | Inr telegram_messages \<Rightarrow>
             if telegram_messages = [] then
               Some (Inr (st\<lparr>calls := calls st @
                  [GetMessages (min batch_size (size_wanted - int (length (processed_messages st))))
                     current_offset]\<rparr>))
             else if int (length telegram_messages)
                     < min batch_size (size_wanted - int (length (processed_messages st))) then
               Some (Inr (process_batch now ch client sync_images minio_manager size_wanted
                            telegram_messages
                            (st\<lparr>calls := calls st @
                               [GetMessages
                                  (min batch_size
                                     (size_wanted - int (length (processed_messages st))))
                                  current_offset]\<rparr>)))
             else
               sync_loop now ch client sync_images minio_manager size_wanted batch_size
                 (tg_id (last telegram_messages))
                 (process_batch now ch client sync_images minio_manager size_wanted
                    telegram_messages
                    (st\<lparr>calls := calls st @
                       [GetMessages
                          (min batch_size (size_wanted - int (length (processed_messages st))))
                          current_offset]\<rparr>)))
      else Some (Inr st))"

declare sync_loop.simps [code]

text \<open>The dictionary that the task returns.\<close>

record task_result =
  t_channel_id :: int
  t_sync_chat :: bool
  t_sync_images :: bool
  t_messages_processed :: nat
  t_chat_messages_stored :: nat
  t_images_downloaded :: nat
  t_images_failed :: nat
  t_elasticsearch_success :: nat
  t_elasticsearch_failed :: nat
  t_has_more :: bool
  t_task_id :: string

text \<open>
  The skipping of \<^verbatim>\<open>offset\<close> messages: the cursor to start from and the trace so far,
  which begins with the initial progress report.
\<close>

definition skip_offset :: "telegram \<Rightarrow> int \<Rightarrow> int \<Rightarrow> exn + int \<times> event list" where
  "skip_offset client size_wanted offset =
     (if 0 < offset then
        (case get_messages client offset 0 of
           Inl e \<Rightarrow> Inl e
         | Inr skip_messages \<Rightarrow>
             Inr (if skip_messages = [] then 0 else tg_id (last skip_messages),
                  [update_progress 0 size_wanted, GetMessages offset 0,
                   update_progress 0 size_wanted]))
      else Inr (0, [update_progress 0 size_wanted]))"

text \<open>
  \<^verbatim>\<open>sync_channel_messages_task\<close>. The parameter \<^verbatim>\<open>size\<close> is \<open>size_wanted\<close>;
  \<open>manager\<close> is the storage manager that the task builds when \<^verbatim>\<open>sync_images\<close> is
  set. Connecting and disconnecting the clients is left out. An exception leaves the
  task (\<open>Inl\<close>).
\<close>

definition sync_channel_messages_task ::
  "string \<Rightarrow> (int \<Rightarrow> datetime) \<Rightarrow> telegram \<Rightarrow> elasticsearch \<Rightarrow> minio \<Rightarrow> int \<Rightarrow> bool \<Rightarrow> bool
     \<Rightarrow> int \<Rightarrow> int \<Rightarrow> int \<Rightarrow> ((exn + task_result) \<times> elasticsearch \<times> event list) option" where
  "sync_channel_messages_task task_id now client es_client manager ch sync_chat sync_images
     size_wanted offset batch_size =
     (if \<not> sync_chat \<and> \<not> sync_images then
        Some (Inl (Exception ''At least one of sync_chat or sync_images must be True''),
              es_client, [])
      else
        (case skip_offset client size_wanted offset of
           Inl e \<Rightarrow> Some (Inl e, es_client, [])
         | Inr (current_offset, log) \<Rightarrow>
             (case sync_loop now ch client sync_images
                     (if sync_images then Some manager else None) size_wanted batch_size
                     current_offset (initial_state\<lparr>calls := log\<rparr>) of
                None \<Rightarrow> None
              | Some (Inl e) \<Rightarrow> Some (Inl e, es_client, [])
              | Some (Inr st) \<Rightarrow>
                  (case (if sync_chat then bulk_insert_processed es_client (processed_messages st)
                         else (Inr (0, 0), es_client)) of
                     (Inl e, es_client') \<Rightarrow> Some (Inl e, es_client', calls st)
                   | (Inr (success, failed), es_client') \<Rightarrow>
                       Some (Inr \<lparr>t_channel_id = ch, t_sync_chat = sync_chat,
                                  t_sync_images = sync_images,
                                  t_messages_processed = length (processed_messages st),
                                  t_chat_messages_stored = (if sync_chat then success else 0),
                                  t_images_downloaded =
                                    (if sync_images then n_images_downloaded st else 0),
                                  t_images_failed =
                                    (if sync_images then n_images_failed st else 0),
                                  t_elasticsearch_success = success,
                                  t_elasticsearch_failed = failed,
                                  t_has_more =
                                    (int (length (processed_messages st)) = size_wanted),
                                  t_task_id = task_id\<rparr>,
                             es_client',
                             calls st @
                               [update_progress (int (length (processed_messages st)))
                                  size_wanted])))))"

section \<open>Fan-out over channels (\<^verbatim>\<open>tasks/smart_sync_tasks.py\<close>)\<close>

text \<open>
  \<^verbatim>\<open>smart_sync_task\<close> wraps the reconciliation of every channel in
  \<^verbatim>\<open>async with semaphore\<close>, with \<^verbatim>\<open>semaphore = asyncio.Semaphore(max_parallel)\<close>,
  starts all of them and reports progress as they complete. The state of the batch:
  the channels whose coroutine waits for the semaphore, those inside the block, those
  completed (in order of completion), the value of the semaphore, and the reports made.
\<close>

record fanout =
  waiting :: "int list"
  running :: "int list"
  completed :: "int list"
  semaphore :: nat
  total_channels :: nat
  reports :: "event list"

definition start_fanout :: "nat \<Rightarrow> int list \<Rightarrow> fanout" where
  "start_fanout max_parallel channel_ids =
     \<lparr>waiting = channel_ids, running = [], completed = [], semaphore = max_parallel,
      total_channels = length channel_ids,
      reports = [update_progress 0 (int (length channel_ids))]\<rparr>"

text \<open>
  Modelled from the spec: the semaphore (\<^verbatim>\<open>asyncio.Semaphore\<close>) and the scheduling of
  the coroutines belong to the runtime, not to the sources; section 4.5 of the
  specification gives the contract (work starts up to the limit, and the next unit starts
  when a running one completes).

  The two things that can happen. \<open>Enter c\<close>: the coroutine of channel \<open>c\<close> acquires
  the semaphore, which is possible only while its value is positive (otherwise the
  coroutine stays blocked and there is no such step). \<open>Finish c\<close>: the reconciliation
  of \<open>c\<close> returns, the block is left, the semaphore released, and the loop over
  \<^verbatim>\<open>asyncio.as_completed\<close> counts the result and reports progress. A step that cannot
  happen in the state is \<open>None\<close>.
\<close>

datatype sched_event = Enter int | Finish int

fun fanout_step :: "sched_event \<Rightarrow> fanout \<Rightarrow> fanout option" where
  "fanout_step (Enter c) s =
     (if c \<in> set (waiting s) \<and> 0 < semaphore s
      then Some (s\<lparr>waiting := remove1 c (waiting s), running := c # running s,
                   semaphore := semaphore s - 1\<rparr>)
      else None)"
| "fanout_step (Finish c) s =
     (if c \<in> set (running s)
      then Some (s\<lparr>running := remove1 c (running s), completed := completed s @ [c],
                   semaphore := semaphore s + 1,
                   reports := reports s @
                     [update_progress (int (length (completed s)) + 1)
                        (int (total_channels s))]\<rparr>)
      else None)"

text \<open>A schedule is any sequence of such steps; the batch runs it from left to right.\<close>

fun run_schedule :: "sched_event list \<Rightarrow> fanout \<Rightarrow> fanout option" where
  "run_schedule [] s = Some s"
| "run_schedule (e # es) s =
     (case fanout_step e s of None \<Rightarrow> None | Some s' \<Rightarrow> run_schedule es s')"

section \<open>Resuming the listener (\<^verbatim>\<open>main.py\<close>, \<^verbatim>\<open>services/listener_service.py\<close>)\<close>

text \<open>
  The listener status is a JSON text under a key of the status store. A parsed JSON
  value, with Python's test for truth:
\<close>

datatype json =
    JNull
  | JBool bool
  | JInt int
  | JString string
  | JList "json list"
  | JObject "(string \<times> json) list"

definition truthy :: "json \<Rightarrow> bool" where
  "truthy v =
     (case v of
        JNull \<Rightarrow> False
      | JBool b \<Rightarrow> b
      | JInt i \<Rightarrow> i \<noteq> 0
      | JString t \<Rightarrow> t \<noteq> []
      | JList vs \<Rightarrow> vs \<noteq> []
      | JObject kvs \<Rightarrow> kvs \<noteq> [])"

text \<open>\<^verbatim>\<open>d.get(key, default)\<close> on a dictionary.\<close>

definition dict_get :: "(string \<times> json) list \<Rightarrow> string \<Rightarrow> json \<Rightarrow> json" where
  "dict_get d key dflt = (case map_of d key of None \<Rightarrow> dflt | Some v \<Rightarrow> v)"

text \<open>
  Modelled from the spec: the status store and the task queue are external
  collaborators (section 6 of the specification: \<^verbatim>\<open>get(key)\<close>, \<^verbatim>\<open>set(key, value)\<close>,
  and the submission of a task, which returns its id).

  What the store holds under the status key: nothing (or the empty text), a text that
  \<^verbatim>\<open>json.loads\<close> rejects (\<open>Unparsable msg\<close>, with \<open>msg\<close> the text of the exception
  it raises), or a text that it parses to a value. \<open>redis_get_exn\<close> and
  \<open>redis_set_exn\<close> say whether reading and writing the store raise. The application
  state also holds the launches of the listener task: the \<^verbatim>\<open>download_images\<close>
  argument of every \<^verbatim>\<open>start_listener_task.delay\<close>, in order; \<open>delay_exn\<close> says
  whether such a call raises.
\<close>

datatype stored = Absent | Unparsable string | Parsed json

record app =
  redis_status :: stored
  redis_get_exn :: "exn option"
  redis_set_exn :: "exn option"
  delay_exn :: "exn option"
  launches :: "json list"

definition get_listener_status :: "app \<Rightarrow> json" where
  "get_listener_status a =
     (case redis_get_exn a of
        Some e \<Rightarrow> JObject [(''is_running'', JBool False), (''error'', JString (str_exn e))]
      | None \<Rightarrow>
          (case redis_status a of
             Absent \<Rightarrow>
               JObject [(''is_running'', JBool False), (''download_images'', JBool True),
                        (''monitored_channels'', JInt 0), (''channels'', JList []),
                        (''started_at'', JNull)]
           | Unparsable msg \<Rightarrow>
               JObject [(''is_running'', JBool False), (''error'', JString msg)]
           | Parsed v \<Rightarrow> v))"

text \<open>
  \<^verbatim>\<open>resume_listener_if_needed\<close>; \<open>task_id\<close> is the id of the launched task and
  \<open>started_at\<close> the time of the launch. Calling \<^verbatim>\<open>.get\<close> on a status that is not a
  dictionary raises, and so may the launch; a failure to write the status back is only
  logged.
\<close>

definition resume_listener_if_needed :: "string \<Rightarrow> string \<Rightarrow> app \<Rightarrow> exn + app" where
  "resume_listener_if_needed task_id started_at a =
     (case get_listener_status a of
        JObject status \<Rightarrow>
          if truthy (dict_get status ''is_running'' (JBool True)) then
            (case delay_exn a of
               Some e \<Rightarrow> Inl e
             | None \<Rightarrow>
                 (case redis_set_exn a of
                    Some e \<Rightarrow>
                      Inr (a\<lparr>launches := launches a
                                @ [dict_get status ''download_images'' (JBool True)]\<rparr>)
                  | None \<Rightarrow>
                      Inr (a\<lparr>launches := launches a
                                @ [dict_get status ''download_images'' (JBool True)],
                             redis_status :=
                               Parsed (JObject
                                 (AList.update ''started_at'' (JString started_at)
                                    (AList.update ''task_id'' (JString task_id) status)))\<rparr>)))
          else Inr a
      | _ \<Rightarrow> Inl (Exception ''AttributeError: object has no attribute get''))"

subsection \<open>The statuses that the sources persist\<close>

text \<open>
  The status is written in six places. Three build it afresh, each with a literal
  \<^verbatim>\<open>is_running\<close> and a \<^verbatim>\<open>download_images\<close> entry: \<^verbatim>\<open>ListenerTask.on_failure\<close>,
  \<^verbatim>\<open>start_listener_task\<close> and \<^verbatim>\<open>stop_listener_task\<close>
  (\<^verbatim>\<open>tasks/listener_tasks.py\<close>). Three update a status they have just read:
  \<^verbatim>\<open>add_channel_task\<close> and \<^verbatim>\<open>remove_channel_task\<close> set the channel entries, and
  \<^verbatim>\<open>resume_listener_if_needed\<close> sets the task id and the start time.
\<close>

definition failure_status :: "string \<Rightarrow> string \<Rightarrow> (string \<times> json) list" where
  "failure_status exc stopped_at =
     [(''is_running'', JBool False), (''download_images'', JBool False),
      (''monitored_channels'', JInt 0), (''channels'', JList []),
      (''error'', JString exc), (''stopped_at'', JString stopped_at)]"

definition started_status :: "json \<Rightarrow> int list \<Rightarrow> string \<Rightarrow> string \<Rightarrow> (string \<times> json) list" where
  "started_status download_images channels started_at task_id =
     [(''is_running'', JBool True), (''download_images'', download_images),
      (''monitored_channels'', JInt (int (length channels))),
      (''channels'', JList (map JInt channels)),
      (''started_at'', JString started_at), (''task_id'', JString task_id)]"

definition stopped_status :: "(string \<times> json) list \<Rightarrow> string \<Rightarrow> (string \<times> json) list" where
  "stopped_status status stopped_at =
     [(''is_running'', JBool False),
      (''download_images'', dict_get status ''download_images'' (JBool True)),
      (''monitored_channels'', JInt 0), (''channels'', JList []),
      (''stopped_at'', JString stopped_at)]"

definition channels_status :: "(string \<times> json) list \<Rightarrow> int list \<Rightarrow> (string \<times> json) list" where
  "channels_status status channels =
     AList.update ''channels'' (JList (map JInt channels))
       (AList.update ''monitored_channels'' (JInt (int (length channels))) status)"

text \<open>
  What all of them keep: the status is a dictionary whose \<^verbatim>\<open>is_running\<close> entry is a
  Boolean, and a status that is running has a \<^verbatim>\<open>download_images\<close> entry. The store
  holds such a status, or nothing before the first write.
\<close>

definition listener_status :: "(string \<times> json) list \<Rightarrow> bool" where
  "listener_status status =
     (case map_of status ''is_running'' of
        Some (JBool b) \<Rightarrow> b \<longrightarrow> map_of status ''download_images'' \<noteq> None
      | _ \<Rightarrow> False)"

definition persisted_status :: "stored \<Rightarrow> bool" where
  "persisted_status v =
     (case v of
        Absent \<Rightarrow> True
      | Parsed (JObject status) \<Rightarrow> listener_status status
      | _ \<Rightarrow> False)"

text \<open>The persisted status shows \<^verbatim>\<open>is_running = true\<close>.\<close>

definition shows_is_running :: "stored \<Rightarrow> bool" where
  "shows_is_running v =
     (case v of
        Parsed (JObject status) \<Rightarrow> map_of status ''is_running'' = Some (JBool True)
      | _ \<Rightarrow> False)"

section \<open>Reading a run\<close>

text \<open>
  The messages handed to \<^verbatim>\<open>process_message\<close>, and the pages that the logged
  requests returned, read off a trace.
\<close>

fun processed_ids :: "event list \<Rightarrow> int list" where
  "processed_ids [] = []"
| "processed_ids (ProcessMessage i # es) = i # processed_ids es"
| "processed_ids (e # es) = processed_ids es"

fun fetched_pages :: "telegram \<Rightarrow> event list \<Rightarrow> tg_msg list list" where
  "fetched_pages client [] = []"
| "fetched_pages client (GetMessages limit offset_id # es) =
     (case get_messages client limit offset_id of Inl e \<Rightarrow> [] | Inr page \<Rightarrow> page)
     # fetched_pages client es"
| "fetched_pages client (e # es) = fetched_pages client es"

text \<open>The loop body run over a list of messages, and the records it yields.\<close>

definition process_all ::
  "(int \<Rightarrow> datetime) \<Rightarrow> int \<Rightarrow> telegram \<Rightarrow> bool \<Rightarrow> minio option \<Rightarrow> tg_msg list \<Rightarrow> loop_state
     \<Rightarrow> loop_state" where
  "process_all now ch client sync_images minio_manager ms st =
     foldl (\<lambda>s m. process_one now ch client sync_images minio_manager m s) st ms"

definition records_of ::
  "(int \<Rightarrow> datetime) \<Rightarrow> int \<Rightarrow> telegram \<Rightarrow> bool \<Rightarrow> minio option \<Rightarrow> tg_msg list
     \<Rightarrow> message_info list" where
  "records_of now ch client sync_images minio_manager ms =
     List.map_filter
       (\<lambda>m. case process_message now m ch client sync_images minio_manager of
               Inr (Some message_info) \<Rightarrow> Some message_info
             | _ \<Rightarrow> None) ms"

text \<open>
  Running the backfill twice with the same cutoff on the same channel: the second run
  starts from the index the first one left. Each run has its own clock. The result is
  the index after the first and after the second run.
\<close>

definition index_after_backfill ::
  "(int \<Rightarrow> datetime) \<Rightarrow> telegram \<Rightarrow> elasticsearch \<Rightarrow> int \<Rightarrow> int \<Rightarrow> bool \<Rightarrow> minio option
     \<Rightarrow> elasticsearch option" where
  "index_after_backfill now client es_client ch after_message_id sync_images minio_manager =
     (case sync_missing_messages now client es_client ch after_message_id sync_images
             minio_manager of
        None \<Rightarrow> None
      | Some (res, es_client', log) \<Rightarrow> Some es_client')"

definition backfill_twice ::
  "(int \<Rightarrow> datetime) \<Rightarrow> (int \<Rightarrow> datetime) \<Rightarrow> telegram \<Rightarrow> elasticsearch \<Rightarrow> int \<Rightarrow> int \<Rightarrow> bool
     \<Rightarrow> minio option \<Rightarrow> (elasticsearch \<times> elasticsearch) option" where
  "backfill_twice now1 now2 client es_client ch after_message_id sync_images minio_manager =
     (case index_after_backfill now1 client es_client ch after_message_id sync_images
             minio_manager of
        None \<Rightarrow> None
      | Some es1 \<Rightarrow>
          (case index_after_backfill now2 client es1 ch after_message_id sync_images
                  minio_manager of
             None \<Rightarrow> None
           | Some es2 \<Rightarrow> Some (es1, es2)))"

text \<open>Two documents that differ at most in their \<^verbatim>\<open>indexed_at\<close> stamp.\<close>

definition same_but_indexed_at :: "message_doc \<Rightarrow> message_doc \<Rightarrow> bool" where
  "same_but_indexed_at d d' = (d\<lparr>doc_indexed_at := 0\<rparr> = d'\<lparr>doc_indexed_at := 0\<rparr>)"

text \<open>The document ids and documents that a list of bulk actions writes.\<close>

definition pairs :: "bulk_action list \<Rightarrow> (string \<times> message_doc) list" where
  "pairs A = map (\<lambda>a. (action_id a, action_source a)) A"

text \<open>
  The progress reports of a trace, as triples of current value, total and percentage,
  and what the reports of a run should satisfy: the current values never decrease and
  every percentage lies between 0 and 100.
\<close>

fun progress_of :: "event list \<Rightarrow> (int \<times> int \<times> int) list" where
  "progress_of [] = []"
| "progress_of (UpdateProgress c t p # es) = (c, t, p) # progress_of es"
| "progress_of (e # es) = progress_of es"

definition progress_ok :: "event list \<Rightarrow> bool" where
  "progress_ok log =
     (sorted (map fst (progress_of log))
      \<and> (\<forall>(c, t, p)\<in>set (progress_of log). 0 \<le> p \<and> p \<le> 100))"

text \<open>
  The invariant behind it: all reports are made by \<^verbatim>\<open>update_progress\<close> with the same
  total, and their current values are non-negative, non-decreasing and at most \<open>bound\<close>.
\<close>

definition reports_within :: "int \<Rightarrow> int \<Rightarrow> event list \<Rightarrow> bool" where
  "reports_within total_items bound log =
     (sorted (map fst (progress_of log))
      \<and> (\<forall>(c, t, p)\<in>set (progress_of log).
            0 \<le> c \<and> c \<le> bound \<and> t = total_items \<and> p = percentage c t))"

text \<open>The invariant of the loop of the sync task, and that of the fan-out.\<close>

definition task_inv :: "int \<Rightarrow> loop_state \<Rightarrow> bool" where
  "task_inv sz st = (reports_within sz (int (length (processed_messages st))) (calls st)
                     \<and> int (length (processed_messages st)) \<le> max 0 sz)"

definition fanout_inv :: "fanout \<Rightarrow> bool" where
  "fanout_inv s =
     (reports_within (int (total_channels s)) (int (length (completed s))) (reports s)
      \<and> length (completed s) + length (running s) + length (waiting s) = total_channels s)"

section \<open>Example inputs\<close>

text \<open>Concrete channels, clients and indexes on which the properties below are run.\<close>

definition text_message :: "int \<Rightarrow> tg_msg" where
  "text_message i =
     \<lparr>tg_id = i, tg_sender = None, tg_sender_id = None, tg_date = Some 0,
      tg_text = Some ''hello'', tg_media = None\<rparr>"

definition photo_message :: "int \<Rightarrow> tg_msg" where
  "photo_message i =
     \<lparr>tg_id = i, tg_sender = None, tg_sender_id = None, tg_date = Some 0,
      tg_text = None, tg_media = Some (MessageMediaPhoto (Some i))\<rparr>"

text \<open>A client on which no request raises; no media can be downloaded, no entity resolved.\<close>

definition quiet_client :: "tg_msg list \<Rightarrow> telegram" where
  "quiet_client h =
     \<lparr>tg_history = h, tg_get_messages_exn = (\<lambda>limit offset_id. None),
      tg_download_media = (\<lambda>m. Inr None),
      tg_get_entity = (\<lambda>i. Inl (Exception ''ValueError: could not find the input entity''))\<rparr>"

definition working_index :: "(string \<times> message_doc) list \<Rightarrow> elasticsearch" where
  "working_index docs = \<lparr>es_messages = docs, es_search_exn = None, es_bulk_exn = None\<rparr>"

definition failing_index :: "(string \<times> message_doc) list \<Rightarrow> elasticsearch" where
  "failing_index docs =
     \<lparr>es_messages = docs, es_search_exn = None,
      es_bulk_exn = Some (Exception ''ConnectionError'')\<rparr>"

definition example_doc :: "int \<Rightarrow> int \<Rightarrow> message_doc" where
  "example_doc ch i =
     \<lparr>doc_channel_id = ch, doc_message_id = i, doc_sender_name = [], doc_time = Some 0,
      doc_text = ''hello'', doc_images = [], doc_image_urls = [], doc_indexed_at = 0\<rparr>"

definition example_action :: "int \<Rightarrow> int \<Rightarrow> bulk_action" where
  "example_action ch i =
     \<lparr>action_index = ''messages'', action_id = str_int ch @ ''_'' @ str_int i,
      action_source = example_doc ch i\<rparr>"

definition clock_at :: "datetime \<Rightarrow> int \<Rightarrow> datetime" where
  "clock_at t i = t"

text \<open>A message from a sender whose entity is missing, and a client that cannot resolve it.\<close>

definition anonymous_message :: tg_msg where
  "anonymous_message =
     \<lparr>tg_id = 1, tg_sender = None, tg_sender_id = Some 42, tg_date = Some 0,
      tg_text = Some ''hi'', tg_media = None\<rparr>"

text \<open>A client on which every download raises.\<close>

definition failing_download_client :: "tg_msg list \<Rightarrow> telegram" where
  "failing_download_client h =
     \<lparr>tg_history = h, tg_get_messages_exn = (\<lambda>limit offset_id. None),
      tg_download_media = (\<lambda>m. Inl (Exception ''TimeoutError'')),
      tg_get_entity = (\<lambda>i. Inl (Exception ''ValueError: could not find the input entity''))\<rparr>"

definition example_minio :: minio where
  "example_minio = \<lparr>endpoint = ''minio:9000'', secure = False, put_object_exn = (\<lambda>n. None)\<rparr>"

text \<open>A channel of \<open>n\<close> text messages with the ids \<open>n, ..., 1\<close>, newest first.\<close>

fun countdown :: "nat \<Rightarrow> tg_msg list" where
  "countdown 0 = []"
| "countdown (Suc n) = text_message (int (Suc n)) # countdown n"

text \<open>An application state, given what the store holds under the status key.\<close>

definition app_with_status :: "stored \<Rightarrow> app" where
  "app_with_status v =
     \<lparr>redis_status = v, redis_get_exn = None, redis_set_exn = None, delay_exn = None,
      launches = []\<rparr>"

section \<open>Properties\<close>

subsection \<open>Auxiliary facts about the backfill loop\<close>

lemma execute_bulk_insert_Inr:
  "\<exists>counts es_client'.
      execute_elasticsearch_bulk_insert es_client actions = (Inr counts, es_client')"
  by (auto simp: execute_elasticsearch_bulk_insert_def split: prod.splits sum.splits)

lemma process_message_never_raises:
  "\<exists>r. process_message now m ch client si mm = Inr r"
  by (auto simp: process_message_def split: sum.splits option.splits prod.splits)

lemma calls_process_one:
  "calls (process_one now ch client si mm m st) = calls st @ [ProcessMessage (tg_id m)]"
  by (simp add: process_one_def split: sum.splits option.splits)

lemma failed_process_one:
  "n_images_failed (process_one now ch client si mm m st) = n_images_failed st"
  using process_message_never_raises [of now m ch client si mm]
  by (auto simp: process_one_def split: sum.splits option.splits)

lemma processed_process_one:
  "processed_messages (process_one now ch client si mm m st)
   = processed_messages st @ records_of now ch client si mm [m]"
  by (simp add: process_one_def records_of_def List.map_filter_simps split: sum.splits option.splits)

lemma process_all_Nil [simp]: "process_all now ch client si mm [] st = st"
  by (simp add: process_all_def)

lemma process_all_Cons [simp]:
  "process_all now ch client si mm (m # ms) st
   = process_all now ch client si mm ms (process_one now ch client si mm m st)"
  by (simp add: process_all_def)

lemma process_all_append:
  "process_all now ch client si mm (xs @ ys) st
   = process_all now ch client si mm ys (process_all now ch client si mm xs st)"
  by (simp add: process_all_def)

lemma records_of_append:
  "records_of now ch client si mm (xs @ ys)
   = records_of now ch client si mm xs @ records_of now ch client si mm ys"
  by (simp add: records_of_def List.map_filter_def)

lemma records_of_Cons:
  "records_of now ch client si mm (x # xs)
   = records_of now ch client si mm [x] @ records_of now ch client si mm xs"
  using records_of_append [of now ch client si mm "[x]" xs] by simp

lemma calls_process_all:
  "calls (process_all now ch client si mm ms st) = calls st @ map (\<lambda>m. ProcessMessage (tg_id m)) ms"
  by (induction ms arbitrary: st) (simp_all add: calls_process_one)

lemma failed_process_all:
  "n_images_failed (process_all now ch client si mm ms st) = n_images_failed st"
  by (induction ms arbitrary: st) (simp_all add: failed_process_one)

lemma processed_process_all:
  "processed_messages (process_all now ch client si mm ms st)
   = processed_messages st @ records_of now ch client si mm ms"
proof (induction ms arbitrary: st)
  case Nil show ?case by (simp add: records_of_def List.map_filter_simps)
next
  case (Cons m ms)
  show ?case using Cons [of "process_one now ch client si mm m st"]
    by (simp add: processed_process_one records_of_Cons [of _ _ _ _ _ m ms])
qed

lemma process_page_takeWhile:
  "process_page now ch client si mm after page st
   = (\<exists>m\<in>set page. tg_id m \<le> after,
      process_all now ch client si mm (takeWhile (\<lambda>m. after < tg_id m) page) st)"
  by (induction page arbitrary: st) auto

lemma wf_iff:
  "well_formed_history h \<longleftrightarrow> sorted_wrt (\<lambda>a b. tg_id b < tg_id a) h \<and> (\<forall>m\<in>set h. 0 < tg_id m)"
proof (induction h rule: well_formed_history.induct)
  case (3 m m' ms)
  then show ?case by (auto intro: less_trans)
qed auto


lemma filter_decreasing_takeWhile:
  "sorted_wrt (\<lambda>a b. tg_id b < tg_id a) xs
   \<Longrightarrow> filter (\<lambda>m. after < tg_id m) xs = takeWhile (\<lambda>m. after < tg_id m) xs"
proof (induction xs)
  case Nil show ?case by simp
next
  case (Cons x xs)
  show ?case
  proof (cases "after < tg_id x")
    case True with Cons show ?thesis by simp
  next
    case False
    with Cons.prems have "\<forall>y\<in>set xs. \<not> after < tg_id y" by auto
    then have "filter (\<lambda>m. after < tg_id m) xs = []" by (simp add: filter_empty_conv)
    with False show ?thesis by simp
  qed
qed

lemma last_least:
  "sorted_wrt (\<lambda>a b. tg_id b < tg_id a) xs \<Longrightarrow> m \<in> set xs \<Longrightarrow> tg_id (last xs) \<le> tg_id m"
proof (induction xs)
  case Nil then show ?case by simp
next
  case (Cons x xs)
  show ?case
  proof (cases "xs = []")
    case True with Cons.prems show ?thesis by simp
  next
    case False
    then have "last xs \<in> set xs" by simp
    with Cons.prems have lx: "tg_id (last xs) < tg_id x" by auto
    have "tg_id (last xs) \<le> tg_id m"
    proof (cases "m = x")
      case True with lx show ?thesis by simp
    next
      case False
      with Cons.prems have "m \<in> set xs" "sorted_wrt (\<lambda>a b. tg_id b < tg_id a) xs" by auto
      then show ?thesis using Cons.IH by blast
    qed
    with False show ?thesis by simp
  qed
qed

lemma get_messages_suffix:
  assumes exn: "\<forall>l k. tg_get_messages_exn client l k = None"
      and wf: "well_formed_history (tg_history client)"
      and h: "tg_history client = pre @ r"
      and off: "(pre = [] \<and> off = 0) \<or> (pre \<noteq> [] \<and> off = tg_id (last pre))"
  shows "get_messages client limit off = Inr (take (nat limit) r)"
proof -
  have "filter (\<lambda>m. off = 0 \<or> tg_id m < off) (pre @ r) = r"
  proof (cases "pre = []")
    case True with off show ?thesis by simp
  next
    case False
    with off have oeq: "off = tg_id (last pre)" by simp
    from wf h have s: "sorted_wrt (\<lambda>a b. tg_id b < tg_id a) (pre @ r)"
      and pos: "\<forall>m\<in>set (pre @ r). 0 < tg_id m" by (simp_all add: wf_iff)
    from False have lp: "last pre \<in> set pre" by simp
    with pos oeq have "0 < off" by simp
    from s have "sorted_wrt (\<lambda>a b. tg_id b < tg_id a) pre" by (simp add: sorted_wrt_append)
    then have ge: "\<forall>m\<in>set pre. off \<le> tg_id m"
      using oeq last_least by blast
    from s lp have lt: "\<forall>m\<in>set r. tg_id m < off"
      using oeq by (auto simp: sorted_wrt_append)
    from ge \<open>0 < off\<close> have "filter (\<lambda>m. off = 0 \<or> tg_id m < off) pre = []"
      by (auto simp: filter_empty_conv)
    moreover from lt have "filter (\<lambda>m. off = 0 \<or> tg_id m < off) r = r"
      by (auto simp: filter_id_conv)
    ultimately show ?thesis by simp
  qed
  with exn h show ?thesis by (simp add: get_messages_def)
qed

lemma processed_ids_append: "processed_ids (xs @ ys) = processed_ids xs @ processed_ids ys"
  by (induction xs rule: processed_ids.induct) simp_all

lemma fetched_pages_append:
  "fetched_pages client (xs @ ys) = fetched_pages client xs @ fetched_pages client ys"
  by (induction client xs rule: fetched_pages.induct) simp_all

lemma processed_ids_map [simp]: "processed_ids (map (\<lambda>m. ProcessMessage (tg_id m)) ms) = map tg_id ms"
  by (induction ms) simp_all

lemma fetched_pages_map [simp]: "fetched_pages client (map (\<lambda>m. ProcessMessage (tg_id m)) ms) = []"
  by (induction ms) simp_all


lemma downloaded_process_one:
  "n_images_downloaded (process_one now ch client si mm m st)
   = n_images_downloaded st
     + (if si then sum_list (map (\<lambda>i. length (image_urls i)) (records_of now ch client si mm [m]))
        else 0)"
  by (simp add: process_one_def records_of_def List.map_filter_simps
           split: sum.splits option.splits)

lemma downloaded_process_all:
  "n_images_downloaded (process_all now ch client si mm ms st)
   = n_images_downloaded st
     + (if si then sum_list (map (\<lambda>i. length (image_urls i)) (records_of now ch client si mm ms))
        else 0)"
proof (induction ms arbitrary: st)
  case Nil show ?case by (simp add: records_of_def List.map_filter_simps)
next
  case (Cons m ms)
  show ?case using Cons [of "process_one now ch client si mm m st"]
    by (simp add: downloaded_process_one records_of_Cons [of _ _ _ _ _ m ms])
qed

lemma fetch_loop_run:
  assumes exn: "\<forall>l k. tg_get_messages_exn client l k = None"
      and wf: "well_formed_history (tg_history client)"
  shows "tg_history client = pre @ r \<Longrightarrow>
         (pre = [] \<and> off = 0) \<or> (pre \<noteq> [] \<and> off = tg_id (last pre)) \<Longrightarrow>
         \<exists>st' ps. fetch_loop now ch client si mm after off st = Some (Inr st')
           \<and> processed_ids (calls st')
               = processed_ids (calls st) @ map tg_id (takeWhile (\<lambda>m. after < tg_id m) r)
           \<and> fetched_pages client (calls st') = fetched_pages client (calls st) @ ps
           \<and> ps \<noteq> []
           \<and> takeWhile (\<lambda>m. after < tg_id m) r = filter (\<lambda>m. after < tg_id m) (concat ps)
           \<and> (\<exists>rest. r = concat ps @ rest)
           \<and> (last ps = [] \<or> (\<exists>m\<in>set (last ps). tg_id m \<le> after))
           \<and> (\<forall>p\<in>set (butlast ps). p \<noteq> [] \<and> (\<forall>m\<in>set p. after < tg_id m))
           \<and> processed_messages st'
               = processed_messages st
                 @ records_of now ch client si mm (takeWhile (\<lambda>m. after < tg_id m) r)
           \<and> n_images_failed st' = n_images_failed st
           \<and> n_images_downloaded st'
               = n_images_downloaded st
                 + (if si then sum_list (map (\<lambda>i. length (image_urls i))
                      (records_of now ch client si mm (takeWhile (\<lambda>m. after < tg_id m) r)))
                    else 0)"
proof (induction "length r" arbitrary: r pre off st rule: less_induct)
  case less
  let ?P = "\<lambda>m. after < tg_id m"
  let ?st0 = "st\<lparr>calls := calls st @ [GetMessages 100 off]\<rparr>"
  let ?page = "take 100 r"
  have gm: "get_messages client 100 off = Inr ?page"
    using get_messages_suffix [OF exn wf less.prems(1) less.prems(2), of 100] by simp
  have fp0: "fetched_pages client (calls ?st0) = fetched_pages client (calls st) @ [?page]"
    by (simp add: fetched_pages_append gm)
  have pi0: "processed_ids (calls ?st0) = processed_ids (calls st)"
    by (simp add: processed_ids_append)
  from wf less.prems(1) have sorted_r: "sorted_wrt (\<lambda>a b. tg_id b < tg_id a) r"
    by (simp add: wf_iff sorted_wrt_append)
  show ?case
  proof (cases "r = []")
    case True
    have "fetch_loop now ch client si mm after off st = Some (Inr ?st0)"
      by (subst fetch_loop.simps) (simp add: gm True)
    with fp0 pi0 True show ?thesis
      by (intro exI [of _ ?st0] exI [of _ "[Nil]"]) (simp add: records_of_def List.map_filter_simps)
  next
    case False
    then have page_ne: "?page \<noteq> []" by simp
    have r_split: "r = ?page @ drop 100 r" by simp
    let ?st1 = "process_all now ch client si mm (takeWhile ?P ?page) ?st0"
    have c1: "calls ?st1 = calls ?st0 @ map (\<lambda>m. ProcessMessage (tg_id m)) (takeWhile ?P ?page)"
      by (rule calls_process_all)
    have fp1: "fetched_pages client (calls ?st1) = fetched_pages client (calls st) @ [?page]"
      unfolding c1 fetched_pages_append using fp0 by simp
    have pi1: "processed_ids (calls ?st1)
               = processed_ids (calls st) @ map tg_id (takeWhile ?P ?page)"
      unfolding c1 processed_ids_append using pi0 by simp
    have pm1: "processed_messages ?st1
               = processed_messages st @ records_of now ch client si mm (takeWhile ?P ?page)"
      by (simp add: processed_process_all)
    have f1: "n_images_failed ?st1 = n_images_failed st"
      by (simp add: failed_process_all)
    have d1: "n_images_downloaded ?st1
              = n_images_downloaded st
                + (if si then sum_list (map (\<lambda>i. length (image_urls i))
                     (records_of now ch client si mm (takeWhile ?P ?page))) else 0)"
      by (simp add: downloaded_process_all)
    show ?thesis
    proof (cases "\<exists>m\<in>set ?page. tg_id m \<le> after")
      case True
      have run: "fetch_loop now ch client si mm after off st = Some (Inr ?st1)"
        using True page_ne by (subst fetch_loop.simps) (simp add: gm process_page_takeWhile)
      from True obtain m where m: "m \<in> set ?page" "\<not> ?P m" by auto
      have tw: "takeWhile ?P r = takeWhile ?P ?page"
        using takeWhile_append1 [of m ?page ?P "drop 100 r"] m by simp
      from sorted_r have "sorted_wrt (\<lambda>a b. tg_id b < tg_id a) ?page"
        by (metis r_split sorted_wrt_append)
      then have fl: "filter ?P ?page = takeWhile ?P ?page"
        by (rule filter_decreasing_takeWhile)
      have ex: "\<exists>rest. r = concat [?page] @ rest"
        by (rule exI [of _ "drop 100 r"]) simp
      show ?thesis
        using run fp1 pi1 pm1 f1 d1 tw fl True ex
        by (intro exI [of _ ?st1] exI [of _ "[?page]"]) simp
    next
      case False
      then have allP: "\<forall>m\<in>set ?page. ?P m" by auto
      then have twp: "takeWhile ?P ?page = ?page" by (simp add: takeWhile_eq_all_conv)
      have run: "fetch_loop now ch client si mm after off st
                 = fetch_loop now ch client si mm after (tg_id (last ?page)) ?st1"
        using False page_ne by (subst fetch_loop.simps) (simp add: gm process_page_takeWhile)
      have len: "length (drop 100 r) < length r" using \<open>r \<noteq> []\<close> by (cases r) auto
      have h': "tg_history client = (pre @ ?page) @ drop 100 r"
        using less.prems(1) by simp
      have off': "(pre @ ?page = [] \<and> tg_id (last ?page) = 0)
                  \<or> (pre @ ?page \<noteq> [] \<and> tg_id (last ?page) = tg_id (last (pre @ ?page)))"
        using page_ne by simp
      from less.hyps [OF len h' off', of ?st1]
      obtain st' ps where
        r1: "fetch_loop now ch client si mm after (tg_id (last ?page)) ?st1 = Some (Inr st')"
        and r2: "processed_ids (calls st')
                 = processed_ids (calls ?st1) @ map tg_id (takeWhile ?P (drop 100 r))"
        and r3: "fetched_pages client (calls st') = fetched_pages client (calls ?st1) @ ps"
        and r4: "ps \<noteq> []"
        and r5: "takeWhile ?P (drop 100 r) = filter ?P (concat ps)"
        and r6: "\<exists>rest. drop 100 r = concat ps @ rest"
        and r7: "last ps = [] \<or> (\<exists>m\<in>set (last ps). tg_id m \<le> after)"
        and r8: "\<forall>p\<in>set (butlast ps). p \<noteq> [] \<and> (\<forall>m\<in>set p. after < tg_id m)"
        and r9: "processed_messages st'
                 = processed_messages ?st1
                   @ records_of now ch client si mm (takeWhile ?P (drop 100 r))"
        and r10: "n_images_failed st' = n_images_failed ?st1"
        and r11: "n_images_downloaded st'
                  = n_images_downloaded ?st1
                    + (if si then sum_list (map (\<lambda>i. length (image_urls i))
                         (records_of now ch client si mm (takeWhile ?P (drop 100 r)))) else 0)"
        by blast
      have tw: "takeWhile ?P r = ?page @ takeWhile ?P (drop 100 r)"
        using takeWhile_append2 [of ?page ?P "drop 100 r"] allP by simp
      from r6 obtain rest where rest: "drop 100 r = concat ps @ rest" by blast
      have e: "r = concat (?page # ps) @ rest"
        using r_split rest by (metis append.assoc concat.simps(2))
      have a: "processed_ids (calls st')
               = processed_ids (calls st) @ map tg_id (takeWhile ?P r)"
        using r2 pi1 tw twp by simp
      have b: "fetched_pages client (calls st') = fetched_pages client (calls st) @ (?page # ps)"
        using r3 fp1 by simp
      have d: "takeWhile ?P r = filter ?P (concat (?page # ps))"
        unfolding tw r5 using allP by (simp add: filter_id_conv)
      have h: "processed_messages st'
               = processed_messages st @ records_of now ch client si mm (takeWhile ?P r)"
        using r9 pm1 tw twp by (simp add: records_of_append)
      have g: "\<forall>p\<in>set (butlast (?page # ps)). p \<noteq> [] \<and> (\<forall>m\<in>set p. after < tg_id m)"
        using r8 r4 page_ne allP by simp
      have f: "last (?page # ps) = [] \<or> (\<exists>m\<in>set (last (?page # ps)). tg_id m \<le> after)"
        using r7 r4 by simp
      have j: "n_images_downloaded st'
               = n_images_downloaded st
                 + (if si then sum_list (map (\<lambda>i. length (image_urls i))
                      (records_of now ch client si mm (takeWhile ?P r))) else 0)"
        using r11 d1 tw by (simp add: records_of_append twp)
      show ?thesis
        using run r1 a b d e f g h r10 f1 j
        by (intro exI [of _ st'] exI [of _ "?page # ps"]) (simp, blast)
    qed
  qed
qed


lemma sync_missing_messages_run:
  assumes exn: "\<forall>l k. tg_get_messages_exn client l k = None"
      and wf: "well_formed_history (tg_history client)"
  shows "\<exists>r es_client' log.
           sync_missing_messages now client es_client ch after si mm = Some (Inr r, es_client', log)
         \<and> bulk_insert_processed es_client
              (records_of now ch client si mm (filter (\<lambda>m. after < tg_id m) (tg_history client)))
             = (Inr (elasticsearch_success r, elasticsearch_failed r), es_client')
         \<and> messages_processed r
             = length (records_of now ch client si mm
                         (filter (\<lambda>m. after < tg_id m) (tg_history client)))
         \<and> images_downloaded r
             = (if si then sum_list (map (\<lambda>i. length (image_urls i))
                  (records_of now ch client si mm
                     (filter (\<lambda>m. after < tg_id m) (tg_history client)))) else 0)
         \<and> images_failed r = 0
         \<and> processed_ids log = map tg_id (filter (\<lambda>m. after < tg_id m) (tg_history client))
         \<and> processed_ids log
             = map tg_id (filter (\<lambda>m. after < tg_id m) (concat (fetched_pages client log)))
         \<and> fetched_pages client log \<noteq> []
         \<and> (\<exists>rest. tg_history client = concat (fetched_pages client log) @ rest)
         \<and> (last (fetched_pages client log) = []
              \<or> (\<exists>m\<in>set (last (fetched_pages client log)). tg_id m \<le> after))
         \<and> (\<forall>p\<in>set (butlast (fetched_pages client log)).
                p \<noteq> [] \<and> (\<forall>m\<in>set p. after < tg_id m))"
proof -
  let ?P = "\<lambda>m. after < tg_id m"
  let ?h = "tg_history client"
  from wf have "sorted_wrt (\<lambda>a b. tg_id b < tg_id a) ?h" by (simp add: wf_iff)
  then have ft: "filter ?P ?h = takeWhile ?P ?h" by (rule filter_decreasing_takeWhile)
  have "\<exists>st' ps. fetch_loop now ch client si mm after 0 initial_state = Some (Inr st')
           \<and> processed_ids (calls st')
               = processed_ids (calls initial_state) @ map tg_id (takeWhile ?P ?h)
           \<and> fetched_pages client (calls st') = fetched_pages client (calls initial_state) @ ps
           \<and> ps \<noteq> []
           \<and> takeWhile ?P ?h = filter ?P (concat ps)
           \<and> (\<exists>rest. ?h = concat ps @ rest)
           \<and> (last ps = [] \<or> (\<exists>m\<in>set (last ps). tg_id m \<le> after))
           \<and> (\<forall>p\<in>set (butlast ps). p \<noteq> [] \<and> (\<forall>m\<in>set p. after < tg_id m))
           \<and> processed_messages st'
               = processed_messages initial_state
                 @ records_of now ch client si mm (takeWhile ?P ?h)
           \<and> n_images_failed st' = n_images_failed initial_state
           \<and> n_images_downloaded st'
               = n_images_downloaded initial_state
                 + (if si then sum_list (map (\<lambda>i. length (image_urls i))
                      (records_of now ch client si mm (takeWhile ?P ?h)))
                    else 0)"
    by (rule fetch_loop_run [OF exn wf, of "[]"]) simp_all
  then obtain st ps where
    r1: "fetch_loop now ch client si mm after 0 initial_state = Some (Inr st)"
    and r2': "processed_ids (calls st)
              = processed_ids (calls initial_state) @ map tg_id (takeWhile ?P ?h)"
    and r3': "fetched_pages client (calls st) = fetched_pages client (calls initial_state) @ ps"
    and r4: "ps \<noteq> []"
    and r5: "takeWhile ?P ?h = filter ?P (concat ps)"
    and r6: "\<exists>rest. ?h = concat ps @ rest"
    and r7: "last ps = [] \<or> (\<exists>m\<in>set (last ps). tg_id m \<le> after)"
    and r8: "\<forall>p\<in>set (butlast ps). p \<noteq> [] \<and> (\<forall>m\<in>set p. after < tg_id m)"
    and r9': "processed_messages st
              = processed_messages initial_state
                @ records_of now ch client si mm (takeWhile ?P ?h)"
    and r10': "n_images_failed st = n_images_failed initial_state"
    and r11': "n_images_downloaded st
               = n_images_downloaded initial_state
                 + (if si then sum_list (map (\<lambda>i. length (image_urls i))
                      (records_of now ch client si mm (takeWhile ?P ?h)))
                    else 0)"
    by blast
  have r2: "processed_ids (calls st) = map tg_id (takeWhile ?P ?h)"
    using r2' by (simp add: initial_state_def)
  have r3: "fetched_pages client (calls st) = ps"
    using r3' by (simp add: initial_state_def)
  have r9: "processed_messages st = records_of now ch client si mm (takeWhile ?P ?h)"
    using r9' by (simp add: initial_state_def)
  have r10: "n_images_failed st = 0"
    using r10' by (simp add: initial_state_def)
  have r11: "n_images_downloaded st
             = (if si then sum_list (map (\<lambda>i. length (image_urls i))
                  (records_of now ch client si mm (takeWhile ?P ?h))) else 0)"
    using r11' by (simp add: initial_state_def)
  obtain counts es' where
    b: "bulk_insert_processed es_client (processed_messages st) = (Inr counts, es')"
    using execute_bulk_insert_Inr [of es_client]
    by (metis bulk_insert_processed_def)
  obtain s f where counts: "counts = (s, f)" by (cases counts)
  let ?r = "\<lparr>messages_processed = length (processed_messages st),
             images_downloaded = n_images_downloaded st,
             images_failed = n_images_failed st,
             elasticsearch_success = s, elasticsearch_failed = f\<rparr>"
  have run: "sync_missing_messages now client es_client ch after si mm
             = Some (Inr ?r, es', calls st)"
    by (simp add: sync_missing_messages_def r1 b counts)
  show ?thesis
    using run b counts r2 r3 r4 r5 r6 r7 r8 r9 r10 r11 ft
    by (intro exI [of _ ?r] exI [of _ es'] exI [of _ "calls st"]) simp
qed

subsection \<open>Bulk insert\<close>

text \<open>
  Claim C10. For every list of bulk actions, \<^verbatim>\<open>execute_elasticsearch_bulk_insert\<close>
  hands its caller a pair of counts and never an exception; when the underlying bulk
  request raises, the pair is \<open>(0, len(actions))\<close>: no success and every action counted
  as failed.
\<close>

theorem bulk_insert_always_returns_counts:
  "(\<exists>counts es_client'.
      execute_elasticsearch_bulk_insert es_client actions = (Inr counts, es_client')) \<and>
   (\<forall>e es_client'.
      async_bulk es_client actions = (Inl e, es_client') \<longrightarrow>
      execute_elasticsearch_bulk_insert es_client actions
        = (Inr (0, length actions), es_client'))"
  by (auto simp: execute_elasticsearch_bulk_insert_def split: prod.splits sum.splits)

theorem bulk_insert_always_returns_counts_witness:
  "execute_elasticsearch_bulk_insert (failing_index []) [example_action 7 1, example_action 7 2]
   = (Inr (0, 2), failing_index [])"
  using bulk_insert_always_returns_counts
    [of "failing_index []" "[example_action 7 1, example_action 7 2]"]
  by (simp add: async_bulk_def failing_index_def)

subsection \<open>Backfill\<close>

text \<open>
  Claim C3. For every channel and every cutoff id, the backfill
  (\<^verbatim>\<open>sync_missing_messages\<close>) fetches pages newest first, stops at the first fetched
  message whose id is at most the cutoff or at the first empty page, and processes
  exactly the fetched messages whose id is strictly greater than the cutoff.

  The channel is one whose history the platform serves as its contract says (ids
  positive and strictly decreasing) and whose requests do not raise. Then the backfill
  returns; the pages it fetched, in order, are a prefix of the history; every page but the
  last is non-empty and wholly above the cutoff, and the last is empty or holds an id at
  most the cutoff; the messages handed to \<^verbatim>\<open>process_message\<close> are, in order, the
  fetched messages above the cutoff, which are all the messages of the channel above it.
\<close>

theorem backfill_processes_exactly_above_cutoff:
  assumes "\<forall>l k. tg_get_messages_exn client l k = None"
      and "well_formed_history (tg_history client)"
  shows "\<exists>r es_client' log.
           sync_missing_messages now client es_client ch after sync_images minio_manager
             = Some (Inr r, es_client', log)
         \<and> fetched_pages client log \<noteq> []
         \<and> (\<exists>rest. tg_history client = concat (fetched_pages client log) @ rest)
         \<and> (\<forall>p\<in>set (butlast (fetched_pages client log)).
                p \<noteq> [] \<and> (\<forall>m\<in>set p. after < tg_id m))
         \<and> (last (fetched_pages client log) = []
              \<or> (\<exists>m\<in>set (last (fetched_pages client log)). tg_id m \<le> after))
         \<and> processed_ids log
             = map tg_id (filter (\<lambda>m. after < tg_id m) (concat (fetched_pages client log)))
         \<and> processed_ids log = map tg_id (filter (\<lambda>m. after < tg_id m) (tg_history client))"
proof -
  from sync_missing_messages_run
         [OF assms, where now = now and es_client = es_client and ch = ch and after = after
            and si = sync_images and mm = minio_manager]
  obtain r es_client' log where
    "sync_missing_messages now client es_client ch after sync_images minio_manager
       = Some (Inr r, es_client', log)"
    "processed_ids log = map tg_id (filter (\<lambda>m. after < tg_id m) (tg_history client))"
    "processed_ids log
       = map tg_id (filter (\<lambda>m. after < tg_id m) (concat (fetched_pages client log)))"
    "fetched_pages client log \<noteq> []"
    "\<exists>rest. tg_history client = concat (fetched_pages client log) @ rest"
    "last (fetched_pages client log) = []
       \<or> (\<exists>m\<in>set (last (fetched_pages client log)). tg_id m \<le> after)"
    "\<forall>p\<in>set (butlast (fetched_pages client log)). p \<noteq> [] \<and> (\<forall>m\<in>set p. after < tg_id m)"
    by blast
  then show ?thesis by blast
qed

theorem backfill_processes_exactly_above_cutoff_witness:
  "well_formed_history (countdown 5) \<and>
   (\<exists>r es_client' log.
      sync_missing_messages (clock_at 9) (quiet_client (countdown 5)) (working_index []) 7 2
        False None = Some (Inr r, es_client', log)
      \<and> processed_ids log = [5, 4, 3])"
proof -
  have wf: "well_formed_history (countdown 5)"
    by (simp add: eval_nat_numeral text_message_def)
  have h: "tg_history (quiet_client (countdown 5)) = countdown 5"
    and e: "\<forall>l k. tg_get_messages_exn (quiet_client (countdown 5)) l k = None"
    by (simp_all add: quiet_client_def)
  have ids: "map tg_id (filter (\<lambda>m. 2 < tg_id m) (countdown 5)) = [5, 4, 3]"
    by (simp add: eval_nat_numeral text_message_def)
  from backfill_processes_exactly_above_cutoff
         [where client = "quiet_client (countdown 5)" and now = "clock_at 9"
            and es_client = "working_index []" and ch = 7 and after = 2
            and sync_images = False and minio_manager = None, OF e]
       wf h ids
  show ?thesis by auto
qed

subsection \<open>Evaluation on example inputs\<close>

lemmas eval_defs =
  get_last_message_id_telegram_def get_messages_def quiet_client_def eval_nat_numeral
  text_message_def get_last_message_id_elasticsearch_def search_channel_desc_def
  working_index_def sync_missing_messages_def fetch_loop.simps initial_state_def
  process_one_def process_message_def bulk_insert_processed_def
  execute_elasticsearch_bulk_insert_def async_bulk_def make_action_def model_dump_def
  upsert_def str_int_def str_nat.simps digit_char_def or_empty_def clock_at_def
  example_doc_def

subsection \<open>Per-message failures in the backfill\<close>

text \<open>
  \<^verbatim>\<open>process_message\<close> never raises: its own handler turns every exception into the
  result \<^verbatim>\<open>None\<close>. So the handler of the backfill loop, the only place that
  increments \<^verbatim>\<open>images_failed\<close>, is never entered, and the counter is 0 at the end of
  every run.
\<close>

lemma fetch_loop_failed_unchanged:
  assumes "fetch_loop now ch client si mm after off st = Some res"
  shows "case res of Inl e \<Rightarrow> True | Inr st' \<Rightarrow> n_images_failed st' = n_images_failed st"
proof (rule fetch_loop.raw_induct
         [where P = "\<lambda>now ch client si mm after off st res.
                       case res of Inl e \<Rightarrow> True
                       | Inr st' \<Rightarrow> n_images_failed st' = n_images_failed st",
          OF _ assms], goal_cases)
  case (1 loop now ch client si mm after off st res)
  show ?case
  proof (cases "get_messages client 100 off")
    case (Inl e)
    with 1(2) show ?thesis by auto
  next
    case (Inr page)
    show ?thesis
    proof (cases "page = []")
      case True
      with Inr 1(2) show ?thesis by auto
    next
      case False
      let ?st1 = "process_all now ch client si mm (takeWhile (\<lambda>m. after < tg_id m) page)
                    (st\<lparr>calls := calls st @ [GetMessages 100 off]\<rparr>)"
      have f: "n_images_failed ?st1 = n_images_failed st" by (simp add: failed_process_all)
      show ?thesis
      proof (cases "\<exists>m\<in>set page. tg_id m \<le> after")
        case True
        with Inr False 1(2) have "res = Inr ?st1" by (simp add: process_page_takeWhile)
        with f show ?thesis by simp
      next
        case nf: False
        with Inr False 1(2) have "loop now ch client si mm after (tg_id (last page)) ?st1 = Some res"
          by (simp add: process_page_takeWhile)
        from 1(1) [OF this] f show ?thesis by (simp split: sum.splits)
      qed
    qed
  qed
qed

lemma sync_missing_messages_never_counts_failures:
  "sync_missing_messages now client es_client ch after si mm = Some (Inr r, es_client', log)
   \<Longrightarrow> images_failed r = 0"
  by (auto simp: sync_missing_messages_def initial_state_def
           dest!: fetch_loop_failed_unchanged split: option.splits sum.splits prod.splits)

text \<open>
  Claim C5. In the backfill, a message whose processing fails is not retried, is skipped
  and the remaining messages are processed; the claim also says that the failure counter
  \<^verbatim>\<open>images_failed\<close> is incremented by one. On a channel with one photo message whose
  download raises, with image synchronisation on, the message is handed to
  \<^verbatim>\<open>process_message\<close> once, contributes no record, the run goes on to the next (empty)
  page, and \<^verbatim>\<open>images_failed\<close> is 0 in the result.
\<close>

theorem backfill_download_failure_is_not_counted:
  "sync_missing_messages (clock_at 9) (failing_download_client [photo_message 1])
     (working_index []) 7 0 True (Some example_minio)
   = Some (Inr \<lparr>messages_processed = 0, images_downloaded = 0, images_failed = 0,
                elasticsearch_success = 0, elasticsearch_failed = 0\<rparr>,
           working_index [],
           [GetMessages 100 0, ProcessMessage 1, GetMessages 100 1])"
  by (simp add: sync_missing_messages_def fetch_loop.simps get_messages_def
        failing_download_client_def photo_message_def initial_state_def process_one_def
        process_message_def is_photo_or_document_def download_and_store_def
        bulk_insert_processed_def)

subsection \<open>Sender name\<close>

text \<open>
  The listener's normaliser \<^verbatim>\<open>process_single_message_enhanced\<close> names a sender
  that cannot be resolved \<open>User_<sender_id>\<close> and always yields a record; the backfill's
  normaliser \<^verbatim>\<open>process_message\<close> has no lookup and leaves the name of every message
  without a sender entity empty.
\<close>

lemma enhanced_sender_fallback:
  "tg_sender m = None \<Longrightarrow> tg_sender_id m = Some sid \<Longrightarrow> sid \<noteq> 0 \<Longrightarrow> tg_get_entity client sid = Inl e
   \<Longrightarrow> \<exists>r. process_single_message_enhanced now m ch client d mm = Inr (Some r)
          \<and> sender_name r = ''User_'' @ str_int sid"
  by (simp add: process_single_message_enhanced_def enhanced_sender_name_def split: prod.splits)

lemma process_message_no_lookup:
  "tg_sender m = None \<Longrightarrow> process_message now m ch client si mm = Inr (Some r) \<Longrightarrow> sender_name r = []"
  by (auto simp: process_message_def split: sum.splits prod.splits)

text \<open>
  Claim C7. A message whose sender entity is absent, whose \<^verbatim>\<open>sender_id\<close> is present
  and cannot be resolved, is normalised to the sender name \<open>User_<sender_id>\<close>. For the
  message with \<^verbatim>\<open>sender_id = 42\<close> below, \<^verbatim>\<open>process_message\<close> (the normaliser of the
  backfill and of the explicit sync) yields the empty name, while
  \<^verbatim>\<open>process_single_message_enhanced\<close> yields \<open>User_42\<close>.
\<close>

theorem backfill_normaliser_has_no_sender_fallback:
  "process_message (clock_at 9) anonymous_message 7 (quiet_client []) False None
   = Inr (Some \<lparr>channel_id = 7, message_id = 1, sender_name = [], time = Some 0,
                msg_text = ''hi'', images = [], image_urls = [], images_data = [],
                indexed_at = 9\<rparr>)
   \<and> process_single_message_enhanced (clock_at 9) anonymous_message 7 (quiet_client []) False None
   = Inr (Some \<lparr>channel_id = 7, message_id = 1, sender_name = ''User_42'', time = Some 0,
                msg_text = ''hi'', images = [], image_urls = [], images_data = [],
                indexed_at = 9\<rparr>)"
  by (simp add: process_message_def process_single_message_enhanced_def anonymous_message_def
        quiet_client_def clock_at_def or_empty_def enhanced_sender_name_def str_int_def
        str_nat.simps digit_char_def)

subsection \<open>Reconciliation\<close>

text \<open>
  On a channel that the platform serves as its contract says, the reconciliation always
  returns one of the outcomes of the table, and an incremental sync processes exactly
  the messages with an id above the indexed one and up to the remote one.
\<close>

lemma remote_is_newest:
  assumes "\<forall>l k. tg_get_messages_exn client l k = None"
      and "well_formed_history (tg_history client)"
      and "get_last_message_id_telegram client = Some remote"
  shows "\<forall>m\<in>set (tg_history client). tg_id m \<le> remote"
proof -
  from assms(1) have gm: "get_messages client 1 0 = Inr (take 1 (tg_history client))"
    by (simp add: get_messages_def)
  with assms(3) obtain m ms where h: "tg_history client = m # ms" and r: "remote = tg_id m"
    by (cases "tg_history client") (auto simp: get_last_message_id_telegram_def)
  from assms(2) h have "\<forall>x\<in>set ms. tg_id x < tg_id m" by (simp add: wf_iff)
  with h r show ?thesis by auto
qed

lemma smart_sync_channel_returns:
  assumes exn: "\<forall>l k. tg_get_messages_exn client l k = None"
      and wf: "well_formed_history (tg_history client)"
  shows "\<exists>out es_client' log.
           smart_sync_channel now ch client es_client sync_images minio_manager
             = Some (Some out, es_client', log)
         \<and> out_action out \<in> {''skip'', ''full_sync'', ''incremental_sync''}"
proof (cases "get_last_message_id_telegram client")
  case None
  then show ?thesis by (simp add: smart_sync_channel_def plain_outcome_def)
next
  case (Some remote)
  show ?thesis
  proof (cases "get_last_message_id_elasticsearch es_client ch")
    case None
    from sync_missing_messages_run [OF exn wf, where now = now and es_client = es_client
           and ch = ch and after = 0 and si = sync_images and mm = minio_manager]
    obtain r es' log where
      "sync_missing_messages now client es_client ch 0 sync_images minio_manager
       = Some (Inr r, es', log)" by blast
    with Some None show ?thesis by (simp add: smart_sync_channel_def sync_outcome_def)
  next
    case (Some indexed)
    from sync_missing_messages_run [OF exn wf, where now = now and es_client = es_client
           and ch = ch and after = indexed and si = sync_images and mm = minio_manager]
    obtain r es' log where
      "sync_missing_messages now client es_client ch indexed sync_images minio_manager
       = Some (Inr r, es', log)" by blast
    with \<open>get_last_message_id_telegram client = Some remote\<close> Some show ?thesis
      by (simp add: smart_sync_channel_def sync_outcome_def plain_outcome_def)
  qed
qed

lemma incremental_sync_window:
  assumes exn: "\<forall>l k. tg_get_messages_exn client l k = None"
      and wf: "well_formed_history (tg_history client)"
      and remote: "get_last_message_id_telegram client = Some remote"
      and indexed: "get_last_message_id_elasticsearch es_client ch = Some indexed"
      and lt: "indexed < remote"
  shows "\<exists>out es_client' log.
           smart_sync_channel now ch client es_client sync_images minio_manager
             = Some (Some out, es_client', log)
         \<and> out_action out = ''incremental_sync''
         \<and> processed_ids log
             = map tg_id (filter (\<lambda>m. indexed < tg_id m \<and> tg_id m \<le> remote) (tg_history client))"
proof -
  from sync_missing_messages_run [OF exn wf, where now = now and es_client = es_client
         and ch = ch and after = indexed and si = sync_images and mm = minio_manager]
  obtain r es' log where
    run: "sync_missing_messages now client es_client ch indexed sync_images minio_manager
          = Some (Inr r, es', log)"
    and ids: "processed_ids log = map tg_id (filter (\<lambda>m. indexed < tg_id m) (tg_history client))"
    by blast
  from remote_is_newest [OF exn wf remote]
  have "filter (\<lambda>m. indexed < tg_id m) (tg_history client)
        = filter (\<lambda>m. indexed < tg_id m \<and> tg_id m \<le> remote) (tg_history client)"
    by (intro filter_cong) auto
  with run ids remote indexed lt show ?thesis
    by (simp add: smart_sync_channel_def sync_outcome_def)
qed

text \<open>
  Claim C1. \<^verbatim>\<open>smart_sync_channel\<close> follows the decision table in strict order. With
  \<open>remote\<close> the last message id of the platform and \<open>indexed\<close> the last indexed id:
  if \<open>remote\<close> cannot be obtained, the outcome is \<^verbatim>\<open>skip\<close> with the reason that the
  channel is not accessible; else if there is no \<open>indexed\<close>, it is \<^verbatim>\<open>full_sync\<close> after
  the backfill from cutoff 0; else if both are equal, \<^verbatim>\<open>skip\<close> with zero messages
  processed; else if \<open>remote\<close> is greater, \<^verbatim>\<open>incremental_sync\<close> after the backfill with
  \<open>indexed\<close> as cutoff; else \<^verbatim>\<open>skip\<close> with a warning as reason. In the three skip
  rows the index is the one given and no request is made for messages; in the two sync
  rows the index and the trace are those of the backfill. (A backfill that raises is
  reported as the outcome \<^verbatim>\<open>error\<close>, section 4.2 of the specification.)
\<close>

theorem smart_sync_channel_decision_table:
  "(get_last_message_id_telegram client = None \<longrightarrow>
      (\<exists>out. smart_sync_channel now ch client es_client sync_images minio_manager
               = Some (Some out, es_client, [])
           \<and> out_action out = ''skip''
           \<and> out_reason out = ''Channel not accessible on Telegram''))
   \<and> (\<forall>remote res es_client' log.
        get_last_message_id_telegram client = Some remote
        \<and> get_last_message_id_elasticsearch es_client ch = None
        \<and> sync_missing_messages now client es_client ch 0 sync_images minio_manager
            = Some (Inr res, es_client', log) \<longrightarrow>
        (\<exists>out. smart_sync_channel now ch client es_client sync_images minio_manager
                 = Some (Some out, es_client', log)
             \<and> out_action out = ''full_sync''
             \<and> out_messages_processed out = Some (messages_processed res)))
   \<and> (\<forall>remote.
        get_last_message_id_telegram client = Some remote
        \<and> get_last_message_id_elasticsearch es_client ch = Some remote \<longrightarrow>
        (\<exists>out. smart_sync_channel now ch client es_client sync_images minio_manager
                 = Some (Some out, es_client, [])
             \<and> out_action out = ''skip''
             \<and> out_reason out = ''Last message IDs are equal''
             \<and> out_messages_processed out = Some 0))
   \<and> (\<forall>remote indexed res es_client' log.
        get_last_message_id_telegram client = Some remote
        \<and> get_last_message_id_elasticsearch es_client ch = Some indexed
        \<and> indexed < remote
        \<and> sync_missing_messages now client es_client ch indexed sync_images minio_manager
            = Some (Inr res, es_client', log) \<longrightarrow>
        (\<exists>out. smart_sync_channel now ch client es_client sync_images minio_manager
                 = Some (Some out, es_client', log)
             \<and> out_action out = ''incremental_sync''
             \<and> out_messages_processed out = Some (messages_processed res)))
   \<and> (\<forall>remote indexed.
        get_last_message_id_telegram client = Some remote
        \<and> get_last_message_id_elasticsearch es_client ch = Some indexed
        \<and> remote < indexed \<longrightarrow>
        (\<exists>out. smart_sync_channel now ch client es_client sync_images minio_manager
                 = Some (Some out, es_client, [])
             \<and> out_action out = ''skip''
             \<and> out_reason out = ''Elasticsearch has higher message ID than Telegram''
             \<and> out_messages_processed out = Some 0))"
  by (simp add: smart_sync_channel_def plain_outcome_def sync_outcome_def)

theorem smart_sync_channel_decision_table_witness:
  "(\<exists>out. smart_sync_channel (clock_at 9) 7 (quiet_client []) (working_index []) False None
            = Some (Some out, working_index [], [])
        \<and> out_action out = ''skip''
        \<and> out_reason out = ''Channel not accessible on Telegram'')
   \<and> (\<exists>out. smart_sync_channel (clock_at 9) 7 (quiet_client (countdown 3)) (working_index [])
              False None
            = Some (Some out,
                    working_index [(''7_3'', (example_doc 7 3)\<lparr>doc_indexed_at := 9\<rparr>),
                                   (''7_2'', (example_doc 7 2)\<lparr>doc_indexed_at := 9\<rparr>),
                                   (''7_1'', (example_doc 7 1)\<lparr>doc_indexed_at := 9\<rparr>)],
                    [GetMessages 100 0, ProcessMessage 3, ProcessMessage 2, ProcessMessage 1,
                     GetMessages 100 1])
        \<and> out_action out = ''full_sync''
        \<and> out_messages_processed out = Some 3)
   \<and> (\<exists>out. smart_sync_channel (clock_at 9) 7 (quiet_client (countdown 3))
              (working_index [(''7_3'', example_doc 7 3)]) False None
            = Some (Some out, working_index [(''7_3'', example_doc 7 3)], [])
        \<and> out_action out = ''skip''
        \<and> out_reason out = ''Last message IDs are equal''
        \<and> out_messages_processed out = Some 0)
   \<and> (\<exists>out. smart_sync_channel (clock_at 9) 7 (quiet_client (countdown 5))
              (working_index [(''7_3'', example_doc 7 3), (''7_2'', example_doc 7 2)]) False None
            = Some (Some out,
                    working_index [(''7_3'', example_doc 7 3), (''7_2'', example_doc 7 2),
                                   (''7_5'', (example_doc 7 5)\<lparr>doc_indexed_at := 9\<rparr>),
                                   (''7_4'', (example_doc 7 4)\<lparr>doc_indexed_at := 9\<rparr>)],
                    [GetMessages 100 0, ProcessMessage 5, ProcessMessage 4])
        \<and> out_action out = ''incremental_sync''
        \<and> out_messages_processed out = Some 2)
   \<and> (\<exists>out. smart_sync_channel (clock_at 9) 7 (quiet_client (countdown 2))
              (working_index [(''7_3'', example_doc 7 3)]) False None
            = Some (Some out, working_index [(''7_3'', example_doc 7 3)], [])
        \<and> out_action out = ''skip''
        \<and> out_reason out = ''Elasticsearch has higher message ID than Telegram''
        \<and> out_messages_processed out = Some 0)"
proof -
  have r1: "get_last_message_id_telegram (quiet_client []) = None"
    by (simp add: eval_defs)
  have r2: "get_last_message_id_telegram (quiet_client (countdown 3)) = Some 3
    \<and> get_last_message_id_elasticsearch (working_index []) 7 = None
    \<and> sync_missing_messages (clock_at 9) (quiet_client (countdown 3)) (working_index []) 7 0
         False None
       = Some (Inr \<lparr>messages_processed = 3, images_downloaded = 0, images_failed = 0,
                    elasticsearch_success = 3, elasticsearch_failed = 0\<rparr>,
               working_index [(''7_3'', (example_doc 7 3)\<lparr>doc_indexed_at := 9\<rparr>),
                              (''7_2'', (example_doc 7 2)\<lparr>doc_indexed_at := 9\<rparr>),
                              (''7_1'', (example_doc 7 1)\<lparr>doc_indexed_at := 9\<rparr>)],
               [GetMessages 100 0, ProcessMessage 3, ProcessMessage 2, ProcessMessage 1,
                GetMessages 100 1])"
    by (simp add: eval_defs)
  have r3: "get_last_message_id_telegram (quiet_client (countdown 3)) = Some 3
    \<and> get_last_message_id_elasticsearch (working_index [(''7_3'', example_doc 7 3)]) 7 = Some 3"
    by (simp add: eval_defs)
  have r4: "get_last_message_id_telegram (quiet_client (countdown 5)) = Some 5
    \<and> get_last_message_id_elasticsearch
         (working_index [(''7_3'', example_doc 7 3), (''7_2'', example_doc 7 2)]) 7 = Some 3
    \<and> (3::int) < 5
    \<and> sync_missing_messages (clock_at 9) (quiet_client (countdown 5))
         (working_index [(''7_3'', example_doc 7 3), (''7_2'', example_doc 7 2)]) 7 3 False None
       = Some (Inr \<lparr>messages_processed = 2, images_downloaded = 0, images_failed = 0,
                    elasticsearch_success = 2, elasticsearch_failed = 0\<rparr>,
               working_index [(''7_3'', example_doc 7 3), (''7_2'', example_doc 7 2),
                              (''7_5'', (example_doc 7 5)\<lparr>doc_indexed_at := 9\<rparr>),
                              (''7_4'', (example_doc 7 4)\<lparr>doc_indexed_at := 9\<rparr>)],
               [GetMessages 100 0, ProcessMessage 5, ProcessMessage 4])"
    by (simp add: eval_defs)
  have r5: "get_last_message_id_telegram (quiet_client (countdown 2)) = Some 2
    \<and> get_last_message_id_elasticsearch (working_index [(''7_3'', example_doc 7 3)]) 7 = Some 3
    \<and> (2::int) < 3"
    by (simp add: eval_defs)
  note table = smart_sync_channel_decision_table
    [where now = "clock_at 9" and ch = 7 and sync_images = False and minio_manager = None]
  have c1: "\<exists>out. smart_sync_channel (clock_at 9) 7 (quiet_client []) (working_index []) False None
              = Some (Some out, working_index [], [])
            \<and> out_action out = ''skip''
            \<and> out_reason out = ''Channel not accessible on Telegram''"
    using table [where client = "quiet_client []" and es_client = "working_index []"] r1
    by blast
  have c2: "\<exists>out. smart_sync_channel (clock_at 9) 7 (quiet_client (countdown 3)) (working_index [])
              False None
            = Some (Some out,
                    working_index [(''7_3'', (example_doc 7 3)\<lparr>doc_indexed_at := 9\<rparr>),
                                   (''7_2'', (example_doc 7 2)\<lparr>doc_indexed_at := 9\<rparr>),
                                   (''7_1'', (example_doc 7 1)\<lparr>doc_indexed_at := 9\<rparr>)],
                    [GetMessages 100 0, ProcessMessage 3, ProcessMessage 2, ProcessMessage 1,
                     GetMessages 100 1])
            \<and> out_action out = ''full_sync''
            \<and> out_messages_processed out = Some 3"
    using table [where client = "quiet_client (countdown 3)" and es_client = "working_index []"]
      r2
    by (metis sync_result.select_convs(1))
  have c3: "\<exists>out. smart_sync_channel (clock_at 9) 7 (quiet_client (countdown 3))
              (working_index [(''7_3'', example_doc 7 3)]) False None
            = Some (Some out, working_index [(''7_3'', example_doc 7 3)], [])
            \<and> out_action out = ''skip''
            \<and> out_reason out = ''Last message IDs are equal''
            \<and> out_messages_processed out = Some 0"
    using table [where client = "quiet_client (countdown 3)"
                   and es_client = "working_index [(''7_3'', example_doc 7 3)]"] r3
    by blast
  have c4: "\<exists>out. smart_sync_channel (clock_at 9) 7 (quiet_client (countdown 5))
              (working_index [(''7_3'', example_doc 7 3), (''7_2'', example_doc 7 2)]) False None
            = Some (Some out,
                    working_index [(''7_3'', example_doc 7 3), (''7_2'', example_doc 7 2),
                                   (''7_5'', (example_doc 7 5)\<lparr>doc_indexed_at := 9\<rparr>),
                                   (''7_4'', (example_doc 7 4)\<lparr>doc_indexed_at := 9\<rparr>)],
                    [GetMessages 100 0, ProcessMessage 5, ProcessMessage 4])
            \<and> out_action out = ''incremental_sync''
            \<and> out_messages_processed out = Some 2"
    using table [where client = "quiet_client (countdown 5)"
                   and es_client = "working_index [(''7_3'', example_doc 7 3),
                                                   (''7_2'', example_doc 7 2)]"] r4
    by (metis sync_result.select_convs(1))
  have c5: "\<exists>out. smart_sync_channel (clock_at 9) 7 (quiet_client (countdown 2))
              (working_index [(''7_3'', example_doc 7 3)]) False None
            = Some (Some out, working_index [(''7_3'', example_doc 7 3)], [])
            \<and> out_action out = ''skip''
            \<and> out_reason out = ''Elasticsearch has higher message ID than Telegram''
            \<and> out_messages_processed out = Some 0"
    using table [where client = "quiet_client (countdown 2)"
                   and es_client = "working_index [(''7_3'', example_doc 7 3)]"] r5
    by blast
  from c1 c2 c3 c4 c5 show ?thesis by blast
qed

subsection \<open>Running the backfill twice\<close>

lemma bulk_insert_processed_messages:
  "bulk_insert_processed es recs = (c, es') \<Longrightarrow>
     es_messages es' = (if es_bulk_exn es = None
                        then foldl upsert (es_messages es) (map make_action recs)
                        else es_messages es)
     \<and> es_bulk_exn es' = es_bulk_exn es \<and> es_search_exn es' = es_search_exn es"
  by (auto simp: bulk_insert_processed_def execute_elasticsearch_bulk_insert_def async_bulk_def
           split: if_splits option.splits sum.splits prod.splits)

lemma process_message_clock:
  "process_message now' m ch client si mm
   = (case process_message now m ch client si mm of
        Inr (Some r) \<Rightarrow> Inr (Some (r\<lparr>indexed_at := now' (message_id r)\<rparr>))
      | x \<Rightarrow> x)"
  by (simp add: process_message_def split: sum.splits prod.splits)

lemma records_of_clock:
  "records_of now' ch client si mm ms
   = map (\<lambda>r. r\<lparr>indexed_at := now' (message_id r)\<rparr>) (records_of now ch client si mm ms)"
proof (induction ms)
  case Nil show ?case by (simp add: records_of_def List.map_filter_simps)
next
  case (Cons m ms)
  show ?case
    using Cons
    by (subst process_message_clock [of now' _ _ _ _ _ now] |
        simp add: records_of_def List.map_filter_simps split: sum.splits option.splits)+
qed

lemma keys_foldl_upsert:
  "fst ` set (foldl upsert Z A) = fst ` set Z \<union> action_id ` set A"
proof (induction A arbitrary: Z)
  case Nil show ?case by simp
next
  case (Cons a A)
  have "fst ` set (upsert Z a) = insert (action_id a) (fst ` set Z)"
    using AList.update_keys [of "action_id a" "action_source a" Z]
    by (metis (no_types, lifting) list.set_map set_append upsert_def Un_insert_right
          insert_absorb list.simps(15) sup_bot.right_neutral empty_set)
  with Cons [of "upsert Z a"] show ?case by auto
qed

lemma keys_foldl_upsert_present:
  "action_id ` set A \<subseteq> fst ` set Z \<Longrightarrow> map fst (foldl upsert Z A) = map fst Z"
proof (induction A arbitrary: Z)
  case Nil show ?case by simp
next
  case (Cons a A)
  then have "action_id a \<in> fst ` set Z" by simp
  then have k: "map fst (upsert Z a) = map fst Z"
    by (simp add: upsert_def AList.update_keys)
  then have "fst ` set (upsert Z a) = fst ` set Z" by (metis list.set_map)
  with Cons.prems have "action_id ` set A \<subseteq> fst ` set (upsert Z a)" by simp
  from Cons.IH [OF this] k show ?case by simp
qed

lemma map_of_foldl_upsert:
  "map_of (foldl upsert Z A) = map_of Z ++ map_of (rev (pairs A))"
proof (induction A arbitrary: Z)
  case Nil show ?case by (simp add: pairs_def)
next
  case (Cons a A)
  have "map_of (upsert Z a) = (map_of Z)(action_id a \<mapsto> action_source a)"
    by (simp add: upsert_def AList.update_conv')
  with Cons [of "upsert Z a"] show ?case
    by (simp add: pairs_def map_add_upd_left fun_eq_iff map_add_def split: option.splits)
qed


lemma same_but_indexed_at_refl [simp]: "same_but_indexed_at d d"
  by (simp add: same_but_indexed_at_def)

lemma rel_option_same_refl: "rel_option same_but_indexed_at x x"
  by (cases x) simp_all

lemma map_of_pairs_related:
  "list_all2 (\<lambda>a b. action_id a = action_id b
                     \<and> same_but_indexed_at (action_source a) (action_source b)) A B
   \<Longrightarrow> rel_option same_but_indexed_at (map_of (pairs A) k) (map_of (pairs B) k)"
  by (induction A B rule: list_all2_induct) (simp_all add: pairs_def)

lemma pairs_rev: "rev (pairs A) = pairs (rev A)"
  by (simp add: pairs_def rev_map)

lemma actions_related:
  "list_all2 (\<lambda>a b. action_id a = action_id b
                     \<and> same_but_indexed_at (action_source a) (action_source b))
     (map make_action (records_of now1 ch client si mm ms))
     (map make_action (records_of now2 ch client si mm ms))"
proof -
  have "list_all2 (\<lambda>a b. action_id a = action_id b
                     \<and> same_but_indexed_at (action_source a) (action_source b))
     (map make_action (records_of now1 ch client si mm ms))
     (map make_action (map (\<lambda>r. r\<lparr>indexed_at := now2 (message_id r)\<rparr>)
                          (records_of now1 ch client si mm ms)))"
    by (simp add: list_all2_map1 list_all2_map2 list_all2_same make_action_def model_dump_def
          same_but_indexed_at_def)
  then show ?thesis by (simp add: records_of_clock [of now2 _ _ _ _ _ now1])
qed

lemma rerun_related:
  assumes rel: "list_all2 (\<lambda>a b. action_id a = action_id b
                     \<and> same_but_indexed_at (action_source a) (action_source b)) A B"
  shows "map fst (foldl upsert (foldl upsert Z A) B) = map fst (foldl upsert Z A)"
    and "rel_option same_but_indexed_at (map_of (foldl upsert Z A) k)
           (map_of (foldl upsert (foldl upsert Z A) B) k)"
proof -
  from rel have ids: "map action_id B = map action_id A"
    by (induction A B rule: list_all2_induct) simp_all
  then have "action_id ` set B = action_id ` set A" by (metis list.set_map)
  then have "action_id ` set B \<subseteq> fst ` set (foldl upsert Z A)"
    by (simp add: keys_foldl_upsert)
  then show "map fst (foldl upsert (foldl upsert Z A) B) = map fst (foldl upsert Z A)"
    by (rule keys_foldl_upsert_present)
  from rel have "list_all2 (\<lambda>a b. action_id a = action_id b
                     \<and> same_but_indexed_at (action_source a) (action_source b)) (rev A) (rev B)"
    by simp
  from map_of_pairs_related [OF this, of k]
  have r: "rel_option same_but_indexed_at (map_of (rev (pairs A)) k) (map_of (rev (pairs B)) k)"
    by (simp add: pairs_rev)
  show "rel_option same_but_indexed_at (map_of (foldl upsert Z A) k)
           (map_of (foldl upsert (foldl upsert Z A) B) k)"
  proof (cases "map_of (rev (pairs B)) k")
    case None
    then show ?thesis
      by (simp add: map_of_foldl_upsert map_add_def rel_option_same_refl)
  next
    case (Some d)
    with r obtain d' where "map_of (rev (pairs A)) k = Some d'" "same_but_indexed_at d' d"
      by (cases "map_of (rev (pairs A)) k") auto
    with Some show ?thesis by (simp add: map_of_foldl_upsert map_add_def)
  qed
qed

text \<open>
  Claim C2. Running the backfill twice with the same cutoff produces the same index
  content. As stated this fails: every record carries \<^verbatim>\<open>indexed_at = datetime.now()\<close>,
  so the second run overwrites each document with one that bears a later stamp. On a
  channel with one message, a first run at time 1 and a second at time 2 leave different
  documents under the id \<open>7_1\<close>.
\<close>

theorem backfill_rerun_changes_indexed_at:
  "backfill_twice (clock_at 1) (clock_at 2) (quiet_client (countdown 1)) (working_index [])
     7 0 False None
   = Some (working_index [(''7_1'', (example_doc 7 1)\<lparr>doc_indexed_at := 1\<rparr>)],
           working_index [(''7_1'', (example_doc 7 1)\<lparr>doc_indexed_at := 2\<rparr>)])
   \<and> working_index [(''7_1'', (example_doc 7 1)\<lparr>doc_indexed_at := 1\<rparr>)]
     \<noteq> working_index [(''7_1'', (example_doc 7 1)\<lparr>doc_indexed_at := 2\<rparr>)]"
  by (simp add: backfill_twice_def index_after_backfill_def eval_defs)

text \<open>
  Claim C2, amended. On a channel that the platform serves as its contract says, both
  runs return; each submits every retained message under the document id
  \<open><channel_id>_<message_id>\<close>, so the second run overwrites the documents of the first
  and adds none: the index holds the same document ids, in the same order, after both
  runs, and under each id the same document except for its \<^verbatim>\<open>indexed_at\<close> stamp.
\<close>

theorem backfill_rerun_same_ids_and_content_up_to_indexed_at:
  assumes "\<forall>l k. tg_get_messages_exn client l k = None"
      and "well_formed_history (tg_history client)"
  shows "\<exists>es1 es2.
           backfill_twice now1 now2 client es_client ch after sync_images minio_manager
             = Some (es1, es2)
         \<and> map fst (es_messages es2) = map fst (es_messages es1)
         \<and> (\<forall>k. rel_option same_but_indexed_at (map_of (es_messages es1) k)
                   (map_of (es_messages es2) k))"
proof -
  let ?F = "filter (\<lambda>m. after < tg_id m) (tg_history client)"
  let ?A = "map make_action (records_of now1 ch client sync_images minio_manager ?F)"
  let ?B = "map make_action (records_of now2 ch client sync_images minio_manager ?F)"
  from sync_missing_messages_run
         [OF assms, where now = now1 and es_client = es_client and ch = ch and after = after
            and si = sync_images and mm = minio_manager]
  obtain r1 es1 log1 where
    run1: "sync_missing_messages now1 client es_client ch after sync_images minio_manager
           = Some (Inr r1, es1, log1)"
    and b1: "bulk_insert_processed es_client
               (records_of now1 ch client sync_images minio_manager ?F)
             = (Inr (elasticsearch_success r1, elasticsearch_failed r1), es1)"
    by blast
  from sync_missing_messages_run
         [OF assms, where now = now2 and es_client = es1 and ch = ch and after = after
            and si = sync_images and mm = minio_manager]
  obtain r2 es2 log2 where
    run2: "sync_missing_messages now2 client es1 ch after sync_images minio_manager
           = Some (Inr r2, es2, log2)"
    and b2: "bulk_insert_processed es1
               (records_of now2 ch client sync_images minio_manager ?F)
             = (Inr (elasticsearch_success r2, elasticsearch_failed r2), es2)"
    by blast
  have twice: "backfill_twice now1 now2 client es_client ch after sync_images minio_manager
               = Some (es1, es2)"
    by (simp add: backfill_twice_def index_after_backfill_def run1 run2)
  note m1 = bulk_insert_processed_messages [OF b1]
  note m2 = bulk_insert_processed_messages [OF b2]
  have rel: "list_all2 (\<lambda>a b. action_id a = action_id b
                     \<and> same_but_indexed_at (action_source a) (action_source b)) ?A ?B"
    by (rule actions_related)
  show ?thesis
  proof (cases "es_bulk_exn es_client")
    case None
    with m1 m2 have e1: "es_messages es1 = foldl upsert (es_messages es_client) ?A"
      and e2: "es_messages es2 = foldl upsert (foldl upsert (es_messages es_client) ?A) ?B"
      by simp_all
    show ?thesis
      using twice rerun_related [OF rel, of "es_messages es_client"] unfolding e1 e2
      by (intro exI [of _ es1] exI [of _ es2]) (simp add: e1 e2)
  next
    case (Some e)
    with m1 m2 have "es_messages es1 = es_messages es_client"
      "es_messages es2 = es_messages es_client" by simp_all
    with twice show ?thesis
      by (intro exI [of _ es1] exI [of _ es2]) (simp add: rel_option_same_refl)
  qed
qed

theorem backfill_rerun_same_ids_and_content_up_to_indexed_at_witness:
  "well_formed_history (countdown 2) \<and>
   (\<exists>es1 es2.
      backfill_twice (clock_at 1) (clock_at 2) (quiet_client (countdown 2)) (working_index [])
        7 0 False None = Some (es1, es2)
      \<and> map fst (es_messages es2) = map fst (es_messages es1)
      \<and> (\<forall>k. rel_option same_but_indexed_at (map_of (es_messages es1) k)
                (map_of (es_messages es2) k)))"
proof -
  have wf: "well_formed_history (tg_history (quiet_client (countdown 2)))"
    and e: "\<forall>l k. tg_get_messages_exn (quiet_client (countdown 2)) l k = None"
    by (simp_all add: quiet_client_def eval_nat_numeral text_message_def)
  from backfill_rerun_same_ids_and_content_up_to_indexed_at
         [OF e wf, where ?now1.0 = "clock_at 1" and ?now2.0 = "clock_at 2"
            and es_client = "working_index []" and ch = 7 and after = 0
            and sync_images = False and minio_manager = None]
       wf
  show ?thesis by (simp add: quiet_client_def)
qed

subsection \<open>Bounded fan-out\<close>

text \<open>
  Every step keeps the sum of the number of running units and the value of the semaphore,
  which is \<open>max_parallel\<close> at the start.
\<close>

lemma fanout_step_invariant:
  "fanout_step e s = Some s' \<Longrightarrow> length (running s') + semaphore s' = length (running s) + semaphore s"
proof (cases e)
  case (Enter c)
  assume "fanout_step e s = Some s'"
  with Enter show ?thesis by (auto split: if_splits)
next
  case (Finish c)
  assume st: "fanout_step e s = Some s'"
  with Finish have c: "c \<in> set (running s)" by (auto split: if_splits)
  then have "0 < length (running s)" by (cases "running s") auto
  with st Finish c show ?thesis by (auto simp: length_remove1 split: if_splits)
qed

lemma run_schedule_invariant:
  "run_schedule es s = Some s' \<Longrightarrow> length (running s') + semaphore s' = length (running s) + semaphore s"
proof (induction es arbitrary: s)
  case Nil then show ?case by simp
next
  case (Cons e es)
  then obtain s1 where s1: "fanout_step e s = Some s1" "run_schedule es s1 = Some s'"
    by (auto split: option.splits)
  from Cons.IH [OF s1(2)] fanout_step_invariant [OF s1(1)] show ?case by simp
qed

lemma run_schedule_append:
  "run_schedule (xs @ ys) s = (case run_schedule xs s of None \<Rightarrow> None | Some s' \<Rightarrow> run_schedule ys s')"
  by (induction xs arbitrary: s) (auto split: option.splits)

lemma run_schedule_prefix:
  "run_schedule es s = Some s' \<Longrightarrow> \<exists>s1. run_schedule (take n es) s = Some s1"
  using run_schedule_append [of "take n es" "drop n es" s]
  by (auto split: option.splits)

lemma blocked_when_full:
  "run_schedule schedule (start_fanout max_parallel channel_ids) = Some s
   \<Longrightarrow> length (running s) = max_parallel \<Longrightarrow> fanout_step (Enter c) s = None"
  using run_schedule_invariant [of schedule "start_fanout max_parallel channel_ids" s]
  by (simp add: start_fanout_def)

text \<open>
  Claim C9. For every list of units and every bound \<open>max_parallel\<close> (so also for 1, 3
  and 20 with more units than the bound), the fan-out never has more than
  \<open>max_parallel\<close> units running at any point of the batch: after every prefix of every
  schedule that the batch can run, the number of running units is at most the bound.
\<close>

theorem fanout_never_exceeds_max_parallel:
  assumes "run_schedule schedule (start_fanout max_parallel channel_ids) = Some s"
  shows "\<forall>n. \<exists>s'. run_schedule (take n schedule) (start_fanout max_parallel channel_ids) = Some s'
                \<and> length (running s') \<le> max_parallel"
proof
  fix n
  from run_schedule_prefix [OF assms, of n]
  obtain s1 where s1: "run_schedule (take n schedule) (start_fanout max_parallel channel_ids) = Some s1"
    by blast
  from run_schedule_invariant [OF s1] have "length (running s1) \<le> max_parallel"
    by (simp add: start_fanout_def)
  with s1 show "\<exists>s'. run_schedule (take n schedule) (start_fanout max_parallel channel_ids) = Some s'
                \<and> length (running s') \<le> max_parallel" by blast
qed

theorem fanout_never_exceeds_max_parallel_witness:
  "run_schedule [Enter 1, Enter 2, Enter 3, Finish 2, Enter 4] (start_fanout 3 [1, 2, 3, 4, 5])
   = Some \<lparr>waiting = [5], running = [4, 3, 1], completed = [2], semaphore = 0,
           total_channels = 5, reports = [update_progress 0 5, update_progress 1 5]\<rparr>
   \<and> (\<forall>n. \<exists>s'. run_schedule (take n [Enter 1, Enter 2, Enter 3, Finish 2, Enter 4])
                    (start_fanout 3 [1, 2, 3, 4, 5]) = Some s'
              \<and> length (running s') \<le> 3)"
proof -
  have run: "run_schedule [Enter 1, Enter 2, Enter 3, Finish 2, Enter 4]
               (start_fanout 3 [1, 2, 3, 4, 5])
             = Some \<lparr>waiting = [5], running = [4, 3, 1], completed = [2], semaphore = 0,
                     total_channels = 5,
                     reports = [update_progress 0 5, update_progress 1 5]\<rparr>"
    by (simp add: start_fanout_def)
  from fanout_never_exceeds_max_parallel [OF run] run show ?thesis by simp
qed

subsection \<open>Resuming the listener\<close>

text \<open>
  When the stored status is a dictionary whose key \<^verbatim>\<open>is_running\<close> holds a Boolean
  and the launch does not raise, the listener is relaunched if and only if that
  Boolean is true; then exactly one launch is issued, with the stored
  \<^verbatim>\<open>download_images\<close> value (true when the key is missing), and the status written
  back carries the new task id and start time.
\<close>

lemma resume_follows_is_running_flag:
  assumes "redis_get_exn a = None" "redis_status a = Parsed (JObject status)"
      and "map_of status ''is_running'' = Some (JBool b)" "delay_exn a = None"
  shows "\<exists>a'. resume_listener_if_needed task_id started_at a = Inr a'
           \<and> launches a' = launches a @ (if b then [dict_get status ''download_images'' (JBool True)] else [])
           \<and> (b \<and> redis_set_exn a = None \<longrightarrow>
                (\<exists>status'. redis_status a' = Parsed (JObject status')
                   \<and> map_of status' = (map_of status)(''task_id'' \<mapsto> JString task_id,
                                                     ''started_at'' \<mapsto> JString started_at)))
           \<and> (\<not> b \<longrightarrow> a' = a)"
  using assms
  by (auto simp: resume_listener_if_needed_def get_listener_status_def dict_get_def truthy_def
        AList.update_conv' split: option.splits)

text \<open>
  Every status that the writers build satisfies \<open>listener_status\<close>, the two tasks that
  update the channel entries keep it, and so does the status that
  \<^verbatim>\<open>get_listener_status\<close> returns and that \<^verbatim>\<open>resume_listener_if_needed\<close> writes
  back: the store never leaves the persisted statuses.
\<close>

lemma written_statuses_are_listener_statuses:
  "listener_status (failure_status exc stopped_at)"
  "listener_status (started_status download_images channels started_at task_id)"
  "listener_status (stopped_status status stopped_at)"
  by (simp_all add: listener_status_def failure_status_def started_status_def stopped_status_def)

lemma channels_status_keeps_listener_status:
  "listener_status status \<Longrightarrow> listener_status (channels_status status channels)"
  by (auto simp: listener_status_def channels_status_def AList.update_conv'
           split: option.splits json.splits)

lemma read_status_is_listener_status:
  "persisted_status (redis_status a) \<Longrightarrow>
   \<exists>status. get_listener_status a = JObject status \<and> listener_status status"
  by (cases "redis_status a")
     (auto simp: persisted_status_def get_listener_status_def listener_status_def
           split: option.splits json.splits)

lemma resume_keeps_persisted_status:
  "persisted_status (redis_status a) \<Longrightarrow> resume_listener_if_needed task_id started_at a = Inr a'
   \<Longrightarrow> persisted_status (redis_status a')"
  by (auto simp: persisted_status_def get_listener_status_def listener_status_def
        resume_listener_if_needed_def AList.update_conv' dict_get_def truthy_def
           split: option.splits stored.splits json.splits if_splits)

text \<open>
  The test in \<^verbatim>\<open>resume_listener_if_needed\<close> is \<^verbatim>\<open>status.get("is_running", True)\<close>. A
  dictionary without the key \<^verbatim>\<open>is_running\<close> is written by none of the writers; read
  from the store, it is taken as running.
\<close>

lemma resume_default_without_is_running_key:
  "resume_listener_if_needed ''t1'' ''2025-01-01T00:00:00''
     (app_with_status (Parsed (JObject [(''download_images'', JBool False)])))
   = Inr \<lparr>redis_status =
            Parsed (JObject [(''download_images'', JBool False), (''task_id'', JString ''t1''),
                             (''started_at'', JString ''2025-01-01T00:00:00'')]),
          redis_get_exn = None, redis_set_exn = None, delay_exn = None,
          launches = [JBool False]\<rparr>"
  by (simp add: resume_listener_if_needed_def get_listener_status_def dict_get_def truthy_def
        app_with_status_def)

text \<open>
  Claim C6. On startup the listener is relaunched if and only if the persisted status
  shows \<^verbatim>\<open>is_running = true\<close>, with exactly one relaunch that uses the stored
  \<^verbatim>\<open>download_images\<close> value and overwrites the task handle and start time. For every
  status that the program persists, when the store can be read and the launch does not
  raise: \<^verbatim>\<open>resume_listener_if_needed\<close> returns; it issues a launch if and only if the
  persisted status shows \<^verbatim>\<open>is_running = true\<close>; in that case it issues exactly one,
  with the stored \<^verbatim>\<open>download_images\<close> value, and (unless the write to the store
  fails) the status it writes back is the persisted one with \<^verbatim>\<open>task_id\<close> and
  \<^verbatim>\<open>started_at\<close> overwritten; otherwise nothing changes.
\<close>

theorem resume_relaunches_iff_is_running:
  assumes "persisted_status (redis_status a)"
      and "redis_get_exn a = None" and "delay_exn a = None"
  shows "\<exists>a'. resume_listener_if_needed task_id started_at a = Inr a'
           \<and> (launches a' \<noteq> launches a) = shows_is_running (redis_status a)
           \<and> (shows_is_running (redis_status a) \<longrightarrow>
                (\<exists>status d. redis_status a = Parsed (JObject status)
                   \<and> map_of status ''download_images'' = Some d
                   \<and> launches a' = launches a @ [d]
                   \<and> (redis_set_exn a = None \<longrightarrow>
                        redis_status a'
                          = Parsed (JObject
                              (AList.update ''started_at'' (JString started_at)
                                 (AList.update ''task_id'' (JString task_id) status))))))
           \<and> (\<not> shows_is_running (redis_status a) \<longrightarrow> a' = a)"
  using assms
  by (auto simp: persisted_status_def get_listener_status_def listener_status_def
        resume_listener_if_needed_def dict_get_def truthy_def shows_is_running_def
           split: option.splits stored.splits json.splits)

text \<open>
  A listener started without image download and two channels: on startup it is
  relaunched once, without image download, and the status carries the new task id and
  start time.
\<close>

theorem resume_relaunches_iff_is_running_witness:
  "persisted_status (redis_status
      (app_with_status
         (Parsed (JObject (started_status (JBool False) [11, 12] ''2025-01-01T00:00:00'' ''t0'')))))
   \<and> shows_is_running
        (Parsed (JObject (started_status (JBool False) [11, 12] ''2025-01-01T00:00:00'' ''t0'')))
   \<and> resume_listener_if_needed ''t1'' ''2025-01-02T00:00:00''
        (app_with_status
           (Parsed (JObject (started_status (JBool False) [11, 12] ''2025-01-01T00:00:00'' ''t0''))))
      = Inr \<lparr>redis_status =
               Parsed (JObject (started_status (JBool False) [11, 12] ''2025-01-02T00:00:00'' ''t1'')),
             redis_get_exn = None, redis_set_exn = None, delay_exn = None,
             launches = [JBool False]\<rparr>"
  using resume_relaunches_iff_is_running
    [of "app_with_status
           (Parsed (JObject (started_status (JBool False) [11, 12] ''2025-01-01T00:00:00'' ''t0'')))"
        "''t1''" "''2025-01-02T00:00:00''"]
  by (simp add: app_with_status_def persisted_status_def listener_status_def started_status_def
        shows_is_running_def resume_listener_if_needed_def get_listener_status_def dict_get_def
        truthy_def)

subsection \<open>Progress reports\<close>

text \<open>
  The rounding of the two floating-point operations never takes the percentage out of
  the range from 0 to 100 as long as \<open>0 \<le> current \<le> total\<close>.
\<close>

lemma bit_length_bounds:
  "0 < n \<Longrightarrow> 2 ^ (bit_length n - 1) \<le> n \<and> n < 2 ^ bit_length n"
proof (induction n rule: bit_length.induct)
  case (1 n)
  show ?case
  proof (cases "n div 2 \<le> 0")
    case True
    with 1(2) have "n = 1" by presburger
    then show ?thesis by (simp add: bit_length.simps)
  next
    case False
    then have pos: "0 < n div 2" by simp
    with 1 have ih: "2 ^ (bit_length (n div 2) - 1) \<le> n div 2" "n div 2 < 2 ^ bit_length (n div 2)"
      by simp_all
    have bl: "bit_length n = Suc (bit_length (n div 2))"
      using 1(2) by (subst bit_length.simps) simp
    have blpos: "0 < bit_length (n div 2)"
      using pos by (subst bit_length.simps) simp
    then obtain k where k: "bit_length (n div 2) = Suc k" by (cases "bit_length (n div 2)") auto
    from ih(1) k have "2 * 2 ^ k \<le> n" by simp
    moreover from ih(2) have "n < 2 * 2 ^ bit_length (n div 2)" by presburger
    ultimately show ?thesis by (simp add: bl k)
  qed
qed

lemma binary_exponent_upper:
  assumes n: "0 < n" and d: "0 < d" and b: "n < 2 ^ 52 * d"
  shows "binary_exponent n d \<le> 51"
proof (cases "bit_length d \<le> bit_length n")
  case False
  then show ?thesis by (simp add: binary_exponent_def)
next
  case True
  let ?k = "bit_length n - bit_length d"
  show ?thesis
  proof (cases "d * 2 ^ ?k \<le> n")
    case le: True
    have "?k < 52"
    proof (rule ccontr)
      assume "\<not> ?k < 52"
      then have "(2::int) ^ 52 \<le> 2 ^ ?k" by (intro power_increasing) simp_all
      with d have "d * 2 ^ 52 \<le> d * 2 ^ ?k" by (intro mult_left_mono) simp_all
      with le b show False by (simp add: mult.commute)
    qed
    with True le show ?thesis by (simp add: binary_exponent_def)
  next
    case nle: False
    have "?k \<le> 52"
    proof (rule ccontr)
      assume "\<not> ?k \<le> 52"
      then have k: "53 \<le> ?k" by simp
      from bit_length_bounds [OF n] have ln: "2 ^ (bit_length n - 1) \<le> n" by simp
      from bit_length_bounds [OF d] have ud: "d < 2 ^ bit_length d" by simp
      from k have "bit_length d + 52 \<le> bit_length n - 1" by simp
      then have "(2::int) ^ (bit_length d + 52) \<le> 2 ^ (bit_length n - 1)"
        by (intro power_increasing) simp_all
      with ln have "(2::int) ^ bit_length d * 2 ^ 52 \<le> n" by (simp add: power_add)
      moreover from ud have "d * 2 ^ 52 < 2 ^ bit_length d * 2 ^ 52" by simp
      ultimately show False using b by (simp add: mult.commute)
    qed
    with True nle show ?thesis by (simp add: binary_exponent_def)
  qed
qed

lemma round_half_even_upper:
  assumes d: "0 < d" and b: "n \<le> i * d"
  shows "round_half_even n d \<le> i"
proof -
  have q: "n div d \<le> i"
    using b d by (metis div_mult_self_is_m zdiv_mono1 nonzero_mult_div_cancel_right less_irrefl)
  show ?thesis
  proof (cases "n div d = i")
    case True
    have "n = d * (n div d) + n mod d" by simp
    with True b have "n mod d \<le> 0" by (simp add: mult.commute)
    moreover from d have "0 \<le> n mod d" by simp
    ultimately have "n mod d = 0" by simp
    with d True show ?thesis by (simp add: round_half_even_def)
  next
    case False
    with q have "n div d + 1 \<le> i" by simp
    with q show ?thesis by (simp add: round_half_even_def)
  qed
qed

lemma round_half_even_nonneg:
  "0 < d \<Longrightarrow> 0 \<le> n \<Longrightarrow> 0 \<le> round_half_even n d"
  by (simp add: round_half_even_def pos_imp_zdiv_nonneg_iff)

lemma round_ratio_bounded:
  assumes n: "0 < n" and d: "0 < d" and b: "n \<le> B * d" and B: "B < 2 ^ 52"
  shows "\<exists>m s. round_ratio n d = Float m (- int s) \<and> 0 \<le> m \<and> m \<le> B * 2 ^ s"
proof -
  from b B d have "n < 2 ^ 52 * d"
    by (smt (verit) mult_strict_right_mono)
  from binary_exponent_upper [OF n d this] have e: "binary_exponent n d \<le> 51" .
  let ?s = "nat (52 - binary_exponent n d)"
  let ?m = "round_half_even (n * 2 ^ ?s) d"
  from e have rr: "round_ratio n d = Float ?m (- int ?s)"
    by (simp add: round_ratio_def)
  from b have "n * 2 ^ ?s \<le> (B * 2 ^ ?s) * d"
    by (simp add: mult.commute mult.left_commute)
  from round_half_even_upper [OF d this] have "?m \<le> B * 2 ^ ?s" .
  moreover from n d have "0 \<le> ?m" by (intro round_half_even_nonneg) simp_all
  ultimately show ?thesis using rr by blast
qed

lemma int_of_float_bounded:
  assumes m: "0 \<le> m" "m \<le> B * 2 ^ s"
  shows "0 \<le> int_of_float (Float m (- int s)) \<and> int_of_float (Float m (- int s)) \<le> B"
proof (cases "s = 0")
  case True
  with m show ?thesis by (simp add: int_of_float_def)
next
  case False
  have "m div 2 ^ s \<le> (B * 2 ^ s) div 2 ^ s" using m by (intro zdiv_mono1) simp_all
  then have "m div 2 ^ s \<le> B" by simp
  moreover have "0 \<le> m div 2 ^ s" using m by (simp add: pos_imp_zdiv_nonneg_iff)
  ultimately show ?thesis using False m by (simp add: int_of_float_def)
qed

lemma percentage_range:
  assumes c: "0 \<le> c" and t: "c \<le> t"
  shows "0 \<le> percentage c t \<and> percentage c t \<le> 100"
proof (cases "0 < t")
  case False
  then show ?thesis by (simp add: percentage_def)
next
  case True
  show ?thesis
  proof (cases "c = 0")
    case True
    then show ?thesis by (simp add: percentage_def truediv_def float_mul_def int_of_float_def)
  next
    case False
    with c have cp: "0 < c" by simp
    from cp True have td: "truediv c t = round_ratio c t" by (simp add: truediv_def)
    from t have "c \<le> 1 * t" by simp
    from round_ratio_bounded [OF cp True this]
    obtain m1 s1 where x: "round_ratio c t = Float m1 (- int s1)" and m1: "0 \<le> m1" "m1 \<le> 2 ^ s1"
      by auto
    show ?thesis
    proof (cases "m1 = 0")
      case True
      with td x True show ?thesis
        by (simp add: percentage_def float_mul_def int_of_float_def)
    next
      case False
      with m1 have mp: "0 < m1 * 100" by simp
      have "\<exists>m2 s2. float_mul (Float m1 (- int s1)) (Float 100 0) = Float m2 (- int s2)
              \<and> 0 \<le> m2 \<and> m2 \<le> 100 * 2 ^ s2"
      proof (cases "s1 = 0")
        case True
        with m1 have "m1 * 100 \<le> 100 * 1" by simp
        from round_ratio_bounded [OF mp _ this] True mp show ?thesis
          by (simp add: float_mul_def)
      next
        case False
        have dp: "(0::int) < 2 ^ s1" by simp
        from m1 have "m1 * 100 \<le> 100 * 2 ^ s1" by simp
        from round_ratio_bounded [OF mp dp this] False mp show ?thesis
          by (simp add: float_mul_def)
      qed
      then obtain m2 s2 where y: "float_mul (Float m1 (- int s1)) (Float 100 0) = Float m2 (- int s2)"
        and m2: "0 \<le> m2" "m2 \<le> 100 * 2 ^ s2" by blast
      from int_of_float_bounded [OF m2] True td x y show ?thesis
        by (simp add: percentage_def)
    qed
  qed
qed

text \<open>
  In every run of the sync task and of the fan-out the reported current values never
  decrease, and every reported percentage lies between 0 and 100.
\<close>

lemma progress_of_append: "progress_of (xs @ ys) = progress_of xs @ progress_of ys"
  by (induction xs rule: progress_of.induct) simp_all

lemma reports_within_report:
  assumes "reports_within t b log" "b \<le> c" "c \<le> b'" "0 \<le> c"
  shows "reports_within t b' (log @ [update_progress c t])"
proof -
  from assms(1) have s: "sorted (map fst (progress_of log))"
    and a: "\<forall>(c, t', p)\<in>set (progress_of log). 0 \<le> c \<and> c \<le> b \<and> t' = t \<and> p = percentage c t'"
    by (simp_all add: reports_within_def)
  from a assms(2) have "\<forall>x\<in>set (map fst (progress_of log)). x \<le> c" by fastforce
  with s have "sorted (map fst (progress_of log) @ [c])"
    by (simp add: sorted_append)
  moreover from a assms(2,3)
  have "\<forall>(c, t', p)\<in>set (progress_of log). 0 \<le> c \<and> c \<le> b' \<and> t' = t \<and> p = percentage c t'"
    by fastforce
  ultimately show ?thesis using assms(3,4)
    by (simp add: reports_within_def progress_of_append update_progress_def)
qed

lemma reports_within_other:
  "reports_within t b log \<Longrightarrow> progress_of es = [] \<Longrightarrow> reports_within t b (log @ es)"
  by (simp add: reports_within_def progress_of_append)

lemma reports_within_progress_ok:
  assumes "reports_within t b log" "b \<le> max 0 t"
  shows "progress_ok log"
proof -
  from assms(1) have s: "sorted (map fst (progress_of log))"
    and a: "\<forall>(c, t', p)\<in>set (progress_of log). 0 \<le> c \<and> c \<le> b \<and> t' = t \<and> p = percentage c t'"
    by (simp_all add: reports_within_def)
  have "\<forall>(c, t', p)\<in>set (progress_of log). 0 \<le> p \<and> p \<le> 100"
  proof (clarify)
    fix c t' p assume "(c, t', p) \<in> set (progress_of log)"
    with a have c: "0 \<le> c" "c \<le> b" "t' = t" "p = percentage c t" by auto
    show "0 \<le> p \<and> p \<le> 100"
    proof (cases "0 < t")
      case True
      with c assms(2) have "c \<le> t" by simp
      with percentage_range [OF c(1) this] c(4) show ?thesis by simp
    next
      case False
      with c(4) show ?thesis by (simp add: percentage_def)
    qed
  qed
  with s show ?thesis by (simp add: progress_ok_def)
qed

lemma task_inv_process_and_report:
  assumes "task_inv sz st" "int (length (processed_messages st)) < sz"
  shows "task_inv sz (process_and_report now ch client si mm sz m st)"
proof -
  let ?n = "int (length (processed_messages st))"
  from assms(1) have rw: "reports_within sz ?n (calls st)" by (simp add: task_inv_def)
  have rw1: "reports_within sz ?n (calls st @ [ProcessMessage (tg_id m)])"
    by (rule reports_within_other [OF rw]) simp
  show ?thesis
  proof (cases "process_message now m ch client si mm")
    case (Inl e)
    with rw1 assms show ?thesis by (simp add: process_and_report_def task_inv_def)
  next
    case (Inr v)
    show ?thesis
    proof (cases v)
      case None
      from reports_within_report [OF rw1, of ?n ?n]
      have "reports_within sz ?n (calls st @ [ProcessMessage (tg_id m), update_progress ?n sz])"
        by simp
      with Inr None assms show ?thesis by (simp add: process_and_report_def task_inv_def)
    next
      case (Some info)
      from reports_within_report [OF rw1, of "?n + 1" "?n + 1"]
      have "reports_within sz (?n + 1)
              (calls st @ [ProcessMessage (tg_id m), update_progress (?n + 1) sz])"
        by simp
      with Inr Some assms show ?thesis
        by (simp add: process_and_report_def task_inv_def add.commute)
    qed
  qed
qed

lemma task_inv_process_batch:
  "task_inv sz st \<Longrightarrow> task_inv sz (process_batch now ch client si mm sz page st)"
proof (induction page arbitrary: st)
  case Nil then show ?case by simp
next
  case (Cons m page)
  show ?case
  proof (cases "sz \<le> int (length (processed_messages st))")
    case True with Cons.prems show ?thesis by simp
  next
    case False
    then have "int (length (processed_messages st)) < sz" by simp
    from Cons.IH [OF task_inv_process_and_report [OF Cons.prems this]] False
    show ?thesis by simp
  qed
qed

lemma task_inv_get: "task_inv sz st \<Longrightarrow> task_inv sz (st\<lparr>calls := calls st @ [GetMessages l k]\<rparr>)"
  by (simp add: task_inv_def reports_within_other)

lemma sync_loop_keeps_task_inv:
  assumes "sync_loop now ch client si mm sz bs off st = Some res"
  shows "task_inv sz st \<longrightarrow> (case res of Inl e \<Rightarrow> True | Inr st' \<Rightarrow> task_inv sz st')"
proof (rule sync_loop.raw_induct
         [where P = "\<lambda>now ch client si mm sz bs off st res.
                       task_inv sz st \<longrightarrow> (case res of Inl e \<Rightarrow> True | Inr st' \<Rightarrow> task_inv sz st')",
          OF _ assms], goal_cases)
  case (1 loop now ch client si mm sz bs off st res)
  show ?case
  proof
    assume inv: "task_inv sz st"
    show "case res of Inl e \<Rightarrow> True | Inr st' \<Rightarrow> task_inv sz st'"
    proof (cases "int (length (processed_messages st)) < sz")
      case False
      with 1(2) inv show ?thesis by auto
    next
      case True
      let ?T = "min bs (sz - int (length (processed_messages st)))"
      let ?st0 = "st\<lparr>calls := calls st @ [GetMessages ?T off]\<rparr>"
      have inv0: "task_inv sz ?st0" by (rule task_inv_get [OF inv])
      show ?thesis
      proof (cases "get_messages client ?T off")
        case (Inl e)
        with 1(2) True show ?thesis by auto
      next
        case (Inr page)
        let ?st1 = "process_batch now ch client si mm sz page ?st0"
        have inv1: "task_inv sz ?st1" by (rule task_inv_process_batch [OF inv0])
        from 1(2) True Inr
        have body: "(if page = [] then Some (Inr ?st0)
                     else if int (length page) < ?T then Some (Inr ?st1)
                     else loop now ch client si mm sz bs (tg_id (last page)) ?st1) = Some res"
          by (simp only: if_True sum.case)
        show ?thesis
        proof (cases "page = []")
          case True
          with body inv0 show ?thesis by auto
        next
          case ne: False
          show ?thesis
          proof (cases "int (length page) < ?T")
            case True
            with body ne inv1 show ?thesis by auto
          next
            case False
            with body ne have "loop now ch client si mm sz bs (tg_id (last page)) ?st1 = Some res"
              by (simp only: if_False)
            from 1(1) [OF this] inv1 show ?thesis by simp
          qed
        qed
      qed
    qed
  qed
qed

lemma sync_task_progress_ok:
  assumes "sync_channel_messages_task task_id now client es_client manager ch sync_chat
             sync_images sz offset bs = Some (Inr r, es_client', log)"
  shows "progress_ok log"
proof -
  from assms obtain off log0 where sk: "skip_offset client sz offset = Inr (off, log0)"
    by (auto simp: sync_channel_messages_task_def split: if_splits sum.splits prod.splits)
  have rw0: "reports_within sz 0 [update_progress 0 sz]"
    using reports_within_report [of sz 0 "[]" 0 0] by (simp add: reports_within_def)
  have "reports_within sz 0 log0"
  proof (cases "0 < offset")
    case False
    with sk rw0 show ?thesis by (auto simp: skip_offset_def)
  next
    case True
    with sk have "log0 = ([update_progress 0 sz] @ [GetMessages offset 0]) @ [update_progress 0 sz]"
      by (auto simp: skip_offset_def split: sum.splits)
    moreover have "reports_within sz 0 ([update_progress 0 sz] @ [GetMessages offset 0])"
      by (rule reports_within_other [OF rw0]) simp
    from reports_within_report [OF this, of 0 0]
    have "reports_within sz 0 (([update_progress 0 sz] @ [GetMessages offset 0])
            @ [update_progress 0 sz])" by simp
    ultimately show ?thesis by simp
  qed
  then have inv0: "task_inv sz (initial_state\<lparr>calls := log0\<rparr>)"
    by (simp add: task_inv_def initial_state_def)
  from assms sk obtain st where
    loop: "sync_loop now ch client sync_images (if sync_images then Some manager else None)
             sz bs off (initial_state\<lparr>calls := log0\<rparr>) = Some (Inr st)"
    and log: "log = calls st @ [update_progress (int (length (processed_messages st))) sz]"
    by (auto simp: sync_channel_messages_task_def
             split: if_splits sum.splits prod.splits option.splits)
  from sync_loop_keeps_task_inv [OF loop] inv0 have inv: "task_inv sz st" by simp
  then have rw: "reports_within sz (int (length (processed_messages st))) (calls st)"
    and le: "int (length (processed_messages st)) \<le> max 0 sz"
    by (simp_all add: task_inv_def)
  from reports_within_report [OF rw, of "int (length (processed_messages st))"
         "int (length (processed_messages st))"]
  have "reports_within sz (int (length (processed_messages st))) log"
    by (simp add: log)
  from reports_within_progress_ok [OF this le] show ?thesis .
qed


lemma fanout_inv_step:
  assumes "fanout_step e s = Some s'" "fanout_inv s"
  shows "fanout_inv s'"
proof (cases e)
  case (Enter c)
  with assms(1) have c: "c \<in> set (waiting s)"
    and s': "s' = s\<lparr>waiting := remove1 c (waiting s), running := c # running s,
                     semaphore := semaphore s - 1\<rparr>"
    by (auto split: if_splits)
  from c obtain k where "length (waiting s) = Suc k" by (cases "waiting s") auto
  with assms(2) c show ?thesis by (simp add: s' fanout_inv_def length_remove1)
next
  case (Finish c)
  with assms(1) have c: "c \<in> set (running s)"
    and s': "s' = s\<lparr>running := remove1 c (running s), completed := completed s @ [c],
                     semaphore := semaphore s + 1,
                     reports := reports s @
                       [update_progress (int (length (completed s)) + 1)
                          (int (total_channels s))]\<rparr>"
    by (auto split: if_splits)
  from c obtain k where r: "length (running s) = Suc k" by (cases "running s") auto
  from assms(2) have rw: "reports_within (int (total_channels s)) (int (length (completed s)))
                            (reports s)"
    by (simp add: fanout_inv_def)
  from reports_within_report [OF rw, of "int (length (completed s)) + 1"
         "int (length (completed s)) + 1"]
  have "reports_within (int (total_channels s)) (int (length (completed s)) + 1)
          (reports s @ [update_progress (int (length (completed s)) + 1)
                          (int (total_channels s))])" by simp
  with assms(2) c r show ?thesis
    by (simp add: s' fanout_inv_def length_remove1 add.commute)
qed

lemma fanout_inv_run:
  "run_schedule es s = Some s' \<Longrightarrow> fanout_inv s \<Longrightarrow> fanout_inv s'"
proof (induction es arbitrary: s)
  case Nil then show ?case by simp
next
  case (Cons e es)
  then obtain s1 where s1: "fanout_step e s = Some s1" "run_schedule es s1 = Some s'"
    by (auto split: option.splits)
  from Cons.IH [OF s1(2) fanout_inv_step [OF s1(1) Cons.prems(2)]] show ?case .
qed

lemma fanout_progress_ok:
  assumes "run_schedule schedule (start_fanout max_parallel channel_ids) = Some s"
  shows "progress_ok (reports s)"
proof -
  have "reports_within (int (length channel_ids)) 0 [update_progress 0 (int (length channel_ids))]"
    using reports_within_report [of "int (length channel_ids)" 0 "[]" 0 0]
    by (simp add: reports_within_def)
  then have "fanout_inv (start_fanout max_parallel channel_ids)"
    by (simp add: fanout_inv_def start_fanout_def)
  from fanout_inv_run [OF assms this]
  have rw: "reports_within (int (total_channels s)) (int (length (completed s))) (reports s)"
    and "length (completed s) + length (running s) + length (waiting s) = total_channels s"
    by (simp_all add: fanout_inv_def)
  then have "int (length (completed s)) \<le> max 0 (int (total_channels s))" by simp
  from reports_within_progress_ok [OF rw this] show ?thesis .
qed

text \<open>
  Claim C8. The reported percentage is \<open>floor(current / total * 100)\<close> when
  \<open>total > 0\<close>, and 0 when \<open>total = 0\<close>. The sources compute
  \<^verbatim>\<open>int((current / total) * 100)\<close> in floating point: \<^verbatim>\<open>29 / 100\<close> is the double
  nearest to 0.29, its product with 100 is rounded to the double just below 29, and the
  truncation gives 28. So the report for \<open>current = 29\<close>, \<open>total = 100\<close> carries the
  percentage 28, where the floor of the exact value is 29. The sync task makes this
  report after its 29th message when started with \<^verbatim>\<open>size=100\<close>.
\<close>

theorem progress_percentage_29_of_100_is_28:
  "update_progress 29 100 = UpdateProgress 29 100 28
   \<and> exact_percentage 29 100 = 29
   \<and> (\<exists>r es_client' log.
         sync_channel_messages_task ''task-1'' (clock_at 9) (quiet_client (countdown 29))
           (working_index []) example_minio 7 True False 100 0 50
           = Some (Inr r, es_client', log)
         \<and> UpdateProgress 29 100 28 \<in> set log)"
proof -
  have p: "update_progress 29 100 = UpdateProgress 29 100 28"
    by (simp add: update_progress_def) code_simp
  have "\<exists>r es_client' log.
         sync_channel_messages_task ''task-1'' (clock_at 9) (quiet_client (countdown 29))
           (working_index []) example_minio 7 True False 100 0 50
           = Some (Inr r, es_client', log)
         \<and> UpdateProgress 29 100 28 \<in> set log"
    by (simp add: sync_channel_messages_task_def skip_offset_def sync_loop.simps
          get_messages_def quiet_client_def eval_nat_numeral text_message_def initial_state_def
          process_and_report_def process_message_def bulk_insert_processed_def
          execute_elasticsearch_bulk_insert_def async_bulk_def working_index_def p [symmetric])
  with p show ?thesis by (simp add: exact_percentage_def)
qed

subsection \<open>Explicit-window sync\<close>

text \<open>
  Without image synchronisation every message yields a record. On a channel that the
  platform serves as its contract says, the task started at offset 0 then processes the
  newest \<open>size\<close> messages, or all of them if there are fewer, and \<^verbatim>\<open>has_more\<close> is
  true exactly when the channel holds at least \<open>size\<close> messages.
\<close>

lemma process_message_plain:
  "\<exists>r. process_message now m ch client False mm = Inr (Some r)"
  by (auto simp: process_message_def split: option.splits prod.splits)

lemma length_records_of_plain:
  "length (records_of now ch client False mm ms) = length ms"
proof (induction ms)
  case Nil show ?case by (simp add: records_of_def List.map_filter_simps)
next
  case (Cons m ms)
  from process_message_plain [of now m ch client mm] Cons show ?case
    by (auto simp: records_of_def List.map_filter_simps)
qed

lemma processed_process_and_report:
  "processed_messages (process_and_report now ch client si mm sz m st)
   = processed_messages st @ records_of now ch client si mm [m]"
  by (simp add: process_and_report_def records_of_def List.map_filter_simps
           split: sum.splits option.splits)

lemma process_batch_plain:
  "int (length (processed_messages st)) \<le> sz \<Longrightarrow>
   processed_messages (process_batch now ch client False mm sz page st)
   = processed_messages st
     @ records_of now ch client False mm
         (take (nat (sz - int (length (processed_messages st)))) page)"
proof (induction page arbitrary: st)
  case Nil show ?case by (simp add: records_of_def List.map_filter_simps)
next
  case (Cons m page)
  show ?case
  proof (cases "sz \<le> int (length (processed_messages st))")
    case True
    with Cons.prems have "sz - int (length (processed_messages st)) = 0" by simp
    with True show ?thesis by (simp add: records_of_def List.map_filter_simps)
  next
    case False
    let ?st = "process_and_report now ch client False mm sz m st"
    have one: "length (records_of now ch client False mm [m]) = 1"
      by (simp add: length_records_of_plain)
    have len: "length (processed_messages ?st) = Suc (length (processed_messages st))"
      using one by (simp add: processed_process_and_report)
    with False have le: "int (length (processed_messages ?st)) \<le> sz" by simp
    from False obtain k where k: "nat (sz - int (length (processed_messages st))) = Suc k"
      by (cases "nat (sz - int (length (processed_messages st)))") auto
    then have k': "nat (sz - int (length (processed_messages ?st))) = k"
      using len by simp
    from Cons.IH [OF le]
    have "processed_messages (process_batch now ch client False mm sz page ?st)
          = processed_messages ?st @ records_of now ch client False mm (take k page)"
      by (simp only: k')
    then have "processed_messages (process_batch now ch client False mm sz page ?st)
          = processed_messages st @ records_of now ch client False mm [m]
            @ records_of now ch client False mm (take k page)"
      by (simp only: processed_process_and_report append_assoc)
    moreover have "records_of now ch client False mm (take (Suc k) (m # page))
          = records_of now ch client False mm [m]
            @ records_of now ch client False mm (take k page)"
      using records_of_Cons [of now ch client False mm m "take k page"] by simp
    ultimately show ?thesis using False by (simp only: k process_batch.simps if_False)
  qed
qed

lemma sync_loop_run:
  assumes exn: "\<forall>l k. tg_get_messages_exn client l k = None"
      and wf: "well_formed_history (tg_history client)"
      and bs: "0 < batch_size"
  shows "tg_history client = pre @ r \<Longrightarrow>
         (pre = [] \<and> off = 0) \<or> (pre \<noteq> [] \<and> off = tg_id (last pre)) \<Longrightarrow>
         int (length (processed_messages st)) \<le> sz \<Longrightarrow>
         \<exists>st'. sync_loop now ch client False mm sz batch_size off st = Some (Inr st')
           \<and> processed_messages st'
               = processed_messages st
                 @ records_of now ch client False mm
                     (take (nat (sz - int (length (processed_messages st)))) r)"
proof (induction "length r" arbitrary: r pre off st rule: less_induct)
  case less
  let ?p = "int (length (processed_messages st))"
  show ?case
  proof (cases "?p < sz")
    case False
    with less.prems(3) have "sz - ?p = 0" by simp
    moreover have "sync_loop now ch client False mm sz batch_size off st = Some (Inr st)"
      using False by (subst sync_loop.simps) simp
    ultimately show ?thesis by (simp add: records_of_def List.map_filter_simps)
  next
    case True
    define T where "T = min batch_size (sz - ?p)"
    let ?page = "take (nat T) r"
    let ?st0 = "st\<lparr>calls := calls st @ [GetMessages T off]\<rparr>"
    from True bs have tf: "0 < T" and tle: "T \<le> sz - ?p" by (simp_all add: T_def)
    have gm: "get_messages client T off = Inr ?page"
      using get_messages_suffix [OF exn wf less.prems(1) less.prems(2)] by simp
    have unfold: "sync_loop now ch client False mm sz batch_size off st
      = (if ?page = [] then Some (Inr ?st0)
         else if int (length ?page) < T
         then Some (Inr (process_batch now ch client False mm sz ?page ?st0))
         else sync_loop now ch client False mm sz batch_size (tg_id (last ?page))
                (process_batch now ch client False mm sz ?page ?st0))"
      using True by (subst sync_loop.simps) (simp add: T_def [symmetric] gm)
    show ?thesis
    proof (cases "r = []")
      case True
      with unfold have "sync_loop now ch client False mm sz batch_size off st = Some (Inr ?st0)"
        by simp
      with True show ?thesis by (simp add: records_of_def List.map_filter_simps)
    next
      case False
      with tf have page_ne: "?page \<noteq> []" by (cases r) (auto simp: take_Cons')
      let ?st1 = "process_batch now ch client False mm sz ?page ?st0"
      have le0: "int (length (processed_messages ?st0)) \<le> sz" using less.prems(3) by simp
      have lp: "length ?page \<le> nat (sz - ?p)" using tle by simp
      have pm1: "processed_messages ?st1
                 = processed_messages st @ records_of now ch client False mm ?page"
      proof -
        have mn: "min (nat (sz - ?p)) (nat T) = nat T" using tle by simp
        from process_batch_plain [OF le0, of now ch client mm ?page]
        show ?thesis by (simp add: mn)
      qed
      show ?thesis
      proof (cases "int (length ?page) < T")
        case True
        have run: "sync_loop now ch client False mm sz batch_size off st = Some (Inr ?st1)"
          using page_ne True unfolding unfold by (simp only: if_False if_True)
        have "length r < nat T"
        proof (rule ccontr)
          assume "\<not> length r < nat T"
          then have "length ?page = nat T" by simp
          moreover have "int (nat T) = T" using tf by simp
          ultimately show False using True by (simp only:)
        qed
        with tle have "?page = r" "take (nat (sz - ?p)) r = r" by simp_all
        with run pm1 show ?thesis by simp
      next
        case nf: False
        then have lpage: "length ?page = nat T" using tf by simp
        have run: "sync_loop now ch client False mm sz batch_size off st
                   = sync_loop now ch client False mm sz batch_size (tg_id (last ?page)) ?st1"
          using page_ne nf unfolding unfold by (simp only: if_False if_True)
        have len: "length (drop (nat T) r) < length r" using \<open>r \<noteq> []\<close> tf by (cases r) auto
        have h': "tg_history client = (pre @ ?page) @ drop (nat T) r"
          using less.prems(1) by simp
        have off': "(pre @ ?page = [] \<and> tg_id (last ?page) = 0)
                    \<or> (pre @ ?page \<noteq> [] \<and> tg_id (last ?page) = tg_id (last (pre @ ?page)))"
          using page_ne by simp
        have l1: "length (processed_messages ?st1) = length (processed_messages st) + nat T"
          using pm1 lpage by (simp add: length_records_of_plain)
        then have le1: "int (length (processed_messages ?st1)) \<le> sz" using tf tle by simp
        from less.hyps [OF len h' off' le1]
        obtain st' where
          r1: "sync_loop now ch client False mm sz batch_size (tg_id (last ?page)) ?st1
               = Some (Inr st')"
          and r2: "processed_messages st'
                   = processed_messages ?st1
                     @ records_of now ch client False mm
                         (take (nat (sz - int (length (processed_messages ?st1))))
                            (drop (nat T) r))"
          by blast
        have n: "nat (sz - int (length (processed_messages ?st1))) = nat (sz - ?p) - nat T"
          using l1 tf by simp
        have "nat (sz - ?p) = nat T + (nat (sz - ?p) - nat T)" using tle tf by simp
        then have tk: "take (nat (sz - ?p)) r
                  = ?page @ take (nat (sz - ?p) - nat T) (drop (nat T) r)"
          by (metis take_add)
        have "processed_messages st'
              = processed_messages st @ records_of now ch client False mm ?page
                @ records_of now ch client False mm
                    (take (nat (sz - ?p) - nat T) (drop (nat T) r))"
          using r2 pm1 n by simp
        also have "\<dots> = processed_messages st
              @ records_of now ch client False mm (take (nat (sz - ?p)) r)"
          by (subst tk) (simp add: records_of_append)
        finally show ?thesis using run r1 by simp
      qed
    qed
  qed
qed


lemma explicit_sync_run:
  assumes exn: "\<forall>l k. tg_get_messages_exn client l k = None"
      and wf: "well_formed_history (tg_history client)"
      and bs: "0 < batch_size" and sz: "0 \<le> sz"
  shows "\<exists>r es_client' log.
           sync_channel_messages_task task_id now client es_client manager ch True False
             sz 0 batch_size = Some (Inr r, es_client', log)
         \<and> t_messages_processed r = min (nat sz) (length (tg_history client))
         \<and> t_has_more r = (nat sz \<le> length (tg_history client))"
proof -
  let ?st = "initial_state\<lparr>calls := [update_progress 0 sz]\<rparr>"
  have sk: "skip_offset client sz 0 = Inr (0, [update_progress 0 sz])"
    by (simp add: skip_offset_def)
  have "\<exists>st'. sync_loop now ch client False None sz batch_size 0 ?st = Some (Inr st')
           \<and> processed_messages st'
               = processed_messages ?st
                 @ records_of now ch client False None
                     (take (nat (sz - int (length (processed_messages ?st)))) (tg_history client))"
    by (rule sync_loop_run [OF exn wf bs, of "[]"]) (simp_all add: initial_state_def sz)
  then obtain st' where
    run: "sync_loop now ch client False None sz batch_size 0 ?st = Some (Inr st')"
    and pm: "processed_messages st'
             = records_of now ch client False None (take (nat sz) (tg_history client))"
    by (auto simp: initial_state_def)
  have len: "length (processed_messages st') = min (nat sz) (length (tg_history client))"
    by (simp add: pm length_records_of_plain min.commute)
  obtain counts es' where
    b: "bulk_insert_processed es_client (processed_messages st') = (Inr counts, es')"
    using execute_bulk_insert_Inr [of es_client]
    by (metis bulk_insert_processed_def)
  obtain s f where counts: "counts = (s, f)" by (cases counts)
  have hm: "(int (length (processed_messages st')) = sz) = (nat sz \<le> length (tg_history client))"
    using sz len by (auto simp: min_def)
  show ?thesis
    using sk run b counts len hm
    by (simp add: sync_channel_messages_task_def)
qed

lemma countdown_ids: "m \<in> set (countdown n) \<Longrightarrow> 0 < tg_id m \<and> tg_id m \<le> int n"
  by (induction n) (auto simp: text_message_def)

lemma well_formed_countdown: "well_formed_history (countdown n)"
proof -
  have "sorted_wrt (\<lambda>a b. tg_id b < tg_id a) (countdown n)"
  proof (induction n)
    case 0 show ?case by simp
  next
    case (Suc n)
    have "\<forall>m\<in>set (countdown n). tg_id m < tg_id (text_message (int (Suc n)))"
      using countdown_ids [of _ n] by (fastforce simp: text_message_def)
    with Suc show ?case by simp
  qed
  moreover have "\<forall>m\<in>set (countdown n). 0 < tg_id m" using countdown_ids by blast
  ultimately show ?thesis by (simp add: wf_iff)
qed

lemma length_countdown: "length (countdown n) = n"
  by (induction n) simp_all

text \<open>
  Claim C4. With \<^verbatim>\<open>size=100\<close>, \<^verbatim>\<open>offset=0\<close>, \<^verbatim>\<open>batch_size=50\<close> on a channel of
  at least 100 messages the result reports exactly 100 messages processed, and
  \<^verbatim>\<open>has_more\<close> is true if and only if a 101st message exists. The task sets
  \<^verbatim>\<open>has_more\<close> to \<^verbatim>\<open>len(processed_messages) == size\<close>: on a channel of exactly 100
  messages it reports 100 messages processed and \<^verbatim>\<open>has_more = true\<close>, although there
  is no 101st message.
\<close>

theorem explicit_window_reports_has_more_without_101st_message:
  "length (tg_history (quiet_client (countdown 100))) = 100
   \<and> (\<exists>r es_client' log.
        sync_channel_messages_task ''task-1'' (clock_at 9) (quiet_client (countdown 100))
          (working_index []) example_minio 7 True False 100 0 50
          = Some (Inr r, es_client', log)
        \<and> t_messages_processed r = 100
        \<and> t_has_more r)"
proof -
  have h: "tg_history (quiet_client (countdown 100)) = countdown 100"
    and e: "\<forall>l k. tg_get_messages_exn (quiet_client (countdown 100)) l k = None"
    by (simp_all add: quiet_client_def)
  have wf: "well_formed_history (tg_history (quiet_client (countdown 100)))"
    by (simp only: h well_formed_countdown)
  from explicit_sync_run [OF e wf, of 50 100 "''task-1''" "clock_at 9" "working_index []"
         example_minio 7]
  show ?thesis by (simp add: h length_countdown)
qed

end
